theory Spec2Isabelle
  imports Complex_Main "HOL-Library.Log_Nat"
begin

section \<open>Cells, timestamps and errors\<close>

text \<open>
  The script works on a pandas table read from a CSV file. A cell is represented by the
  value the operations of the script read from it: \<open>CTime t\<close> is a text that
  \<open>pd.to_datetime\<close> parses to the timestamp \<open>t\<close>, \<open>CInt\<close> and \<open>CFlt\<close> are numbers,
  \<open>CStr\<close> is any other text and \<open>NA\<close> is the missing value (NaN, NaT).
  A timestamp is represented by the fields the \<open>.dt\<close> accessors of the script read.
\<close>

datatype weekday = Monday | Tuesday | Wednesday | Thursday | Friday | Saturday | Sunday

record timestamp =
  ts_year :: int
  ts_month :: nat
  ts_dayofweek :: weekday
  ts_hour :: nat

datatype cell = CInt int | CFlt real | CStr string | CTime timestamp | NA

datatype error = KeyError string | TypeError | ValueError | IndexError

subsection \<open>Time periods (lines 83--91)\<close>

text \<open>
  Python compares an int or a float with a number; every comparison with NaN is false;
  comparing a number with a text or a timestamp raises TypeError.
\<close>

fun comparable :: "cell \<Rightarrow> bool" where
  "comparable (CInt i) = True"
| "comparable (CFlt x) = True"
| "comparable NA = True"
| "comparable (CStr s) = False"
| "comparable (CTime t) = False"

fun num_le :: "real \<Rightarrow> cell \<Rightarrow> bool" where
  "num_le k (CInt i) = (k \<le> of_int i)"
| "num_le k (CFlt x) = (k \<le> x)"
| "num_le k c = False"

fun num_lt :: "cell \<Rightarrow> real \<Rightarrow> bool" where
  "num_lt (CInt i) k = (of_int i < k)"
| "num_lt (CFlt x) k = (x < k)"
| "num_lt c k = False"

definition get_time_period :: "cell \<Rightarrow> error + string" where
  "get_time_period hour =
     (if \<not> comparable hour then Inl TypeError
      else if num_le 5 hour \<and> num_lt hour 12 then Inr ''Morning''
      else if num_le 12 hour \<and> num_lt hour 17 then Inr ''Afternoon''
      else if num_le 17 hour \<and> num_lt hour 21 then Inr ''Evening''
      else Inr ''Night'')"

section \<open>Tables\<close>

text \<open>
  A table has its column labels (\<open>df.columns\<close>) and one entry per index position; a row
  gives the cell under each label. \<open>df[c]\<close> raises KeyError for a label that is not a column;
  \<open>df[c] = series\<close> replaces the column or appends it as the last one.
\<close>

record dataframe =
  columns :: "string list"
  rows :: "(string \<Rightarrow> cell) list"

definition len :: "dataframe \<Rightarrow> nat" where
  "len df = length (rows df)"

definition col :: "dataframe \<Rightarrow> string \<Rightarrow> cell list" where
  "col df c = map (\<lambda>r. r c) (rows df)"

definition getcol :: "dataframe \<Rightarrow> string \<Rightarrow> error + cell list" where
  "getcol df c = (if c \<in> set (columns df) then Inr (col df c) else Inl (KeyError c))"

definition setcol :: "dataframe \<Rightarrow> string \<Rightarrow> cell list \<Rightarrow> dataframe" where
  "setcol df c vs =
     \<lparr> columns = (if c \<in> set (columns df) then columns df else columns df @ [c]),
       rows = map (\<lambda>(r, v). r(c := v)) (zip (rows df) vs) \<rparr>"

section \<open>Step 1: loading (lines 33--62)\<close>

text \<open>
  The archive is what the script sees of it: the listing \<open>namelist()\<close> and, for a member
  name, the table pandas parses from the extracted file. \<open>read_csv(..., nrows=50000)\<close>
  keeps the first 50000 data rows. The world has an archive or none
  (\<open>os.path.exists\<close>).
\<close>

record archive =
  namelist :: "string list"
  member :: "string \<Rightarrow> dataframe"

definition endswith :: "string \<Rightarrow> string \<Rightarrow> bool" where
  "endswith f suf = (length suf \<le> length f \<and> drop (length f - length suf) f = suf)"

definition read_csv :: "dataframe \<Rightarrow> nat \<Rightarrow> dataframe" where
  "read_csv file n = file \<lparr> rows := take n (rows file) \<rparr>"

datatype loaded = Exit | Loaded string dataframe

definition load :: "archive option \<Rightarrow> loaded" where
  "load world =
     (case world of
        None \<Rightarrow> Exit
      | Some zip_ref \<Rightarrow>
          (let file_list = namelist zip_ref;
               csv_files = filter (\<lambda>f. endswith f ''.csv'') file_list
           in case csv_files of
                [] \<Rightarrow> Exit
              | csv_file # _ \<Rightarrow> Loaded csv_file (read_csv (member zip_ref csv_file) 50000)))"

section \<open>Step 2: derived features (lines 72--93)\<close>

text \<open>
  \<open>pd.to_datetime(errors='coerce')\<close> turns every entry that does not parse into NaT.
  The integer accessors of \<open>.dt\<close> (hour, month, year, dayofweek) give an integer column
  when no entry is NaT and a float column with NaN otherwise; \<open>day_name\<close> and
  \<open>strftime\<close> give texts, with the missing value for NaT.
\<close>

definition to_datetime :: "cell list \<Rightarrow> cell list" where
  "to_datetime cs = map (\<lambda>c. case c of CTime t \<Rightarrow> CTime t | _ \<Rightarrow> NA) cs"

definition dt_field :: "(timestamp \<Rightarrow> int) \<Rightarrow> cell list \<Rightarrow> cell list" where
  "dt_field f cs =
     (if NA \<in> set cs
      then map (\<lambda>c. case c of CTime t \<Rightarrow> CFlt (of_int (f t)) | _ \<Rightarrow> NA) cs
      else map (\<lambda>c. case c of CTime t \<Rightarrow> CInt (f t) | _ \<Rightarrow> NA) cs)"

fun dayofweek :: "weekday \<Rightarrow> int" where
  "dayofweek Monday = 0"
| "dayofweek Tuesday = 1"
| "dayofweek Wednesday = 2"
| "dayofweek Thursday = 3"
| "dayofweek Friday = 4"
| "dayofweek Saturday = 5"
| "dayofweek Sunday = 6"

fun day_name :: "weekday \<Rightarrow> string" where
  "day_name Monday = ''Monday''"
| "day_name Tuesday = ''Tuesday''"
| "day_name Wednesday = ''Wednesday''"
| "day_name Thursday = ''Thursday''"
| "day_name Friday = ''Friday''"
| "day_name Saturday = ''Saturday''"
| "day_name Sunday = ''Sunday''"

definition month_names :: "string list" where
  "month_names = [''January'', ''February'', ''March'', ''April'', ''May'', ''June'', ''July'',
     ''August'', ''September'', ''October'', ''November'', ''December'']"

definition month_name :: "nat \<Rightarrow> string" where
  "month_name m = (if 1 \<le> m \<and> m \<le> 12 then month_names ! (m - 1) else [])"

definition dt_text :: "(timestamp \<Rightarrow> string) \<Rightarrow> cell list \<Rightarrow> cell list" where
  "dt_text f cs = map (\<lambda>c. case c of CTime t \<Rightarrow> CStr (f t) | _ \<Rightarrow> NA) cs"

text \<open>\<open>isin\<close> compares numerically (5.0 is in [5, 6]); NaN is in no list.\<close>

fun isin :: "int list \<Rightarrow> cell \<Rightarrow> bool" where
  "isin vs (CInt i) = (i \<in> set vs)"
| "isin vs (CFlt x) = list_ex (\<lambda>v. of_int v = x) vs"
| "isin vs c = False"

definition astype_int :: "bool list \<Rightarrow> cell list" where
  "astype_int bs = map (\<lambda>b. CInt (if b then 1 else 0)) bs"

text \<open>\<open>Series.apply\<close> calls the function on every entry, NaN included, and stops at the
  first exception.\<close>

fun apply_series :: "(cell \<Rightarrow> error + string) \<Rightarrow> cell list \<Rightarrow> error + cell list" where
  "apply_series f [] = Inr []"
| "apply_series f (c # cs) =
     (case f c of
        Inl e \<Rightarrow> Inl e
      | Inr v \<Rightarrow> (case apply_series f cs of Inl e \<Rightarrow> Inl e | Inr vs \<Rightarrow> Inr (CStr v # vs)))"

definition preprocess :: "dataframe \<Rightarrow> error + dataframe" where
  "preprocess df0 =
     (case getcol df0 ''Start_Time'' of
        Inl e \<Rightarrow> Inl e
      | Inr raw \<Rightarrow>
          (let df1 = setcol df0 ''Start_Time'' (to_datetime raw);
               st = col df1 ''Start_Time'';
               df2 = setcol df1 ''Hour'' (dt_field (\<lambda>t. int (ts_hour t)) st);
               df3 = setcol df2 ''Day_of_Week'' (dt_text (\<lambda>t. day_name (ts_dayofweek t)) st);
               df4 = setcol df3 ''Month'' (dt_field (\<lambda>t. int (ts_month t)) st);
               df5 = setcol df4 ''Month_Name'' (dt_text (\<lambda>t. month_name (ts_month t)) st);
               df6 = setcol df5 ''Year'' (dt_field ts_year st);
               df7 = setcol df6 ''Is_Weekend''
                       (astype_int (map (isin [5, 6]) (dt_field (\<lambda>t. dayofweek (ts_dayofweek t)) st)))
           in case apply_series get_time_period (col df7 ''Hour'') of
                Inl e \<Rightarrow> Inl e
              | Inr periods \<Rightarrow> Inr (setcol df7 ''Time_Period'' periods)))"

section \<open>Double precision\<close>

text \<open>
  A double is the rational number it denotes. \<open>round_double\<close> rounds a rational number to
  the nearest double, ties to even; the magnitudes met here stay far from overflow and from
  the subnormal range. The format \<open>.1f\<close> of the report prints the exact value of a double
  rounded to one decimal, ties to even; \<open>fmt1\<close> gives that decimal in tenths.
\<close>

definition round_div :: "int \<Rightarrow> int \<Rightarrow> int" where
  "round_div n d =
     (let f = n div d; r = n mod d
      in if 2 * r < d then f else if d < 2 * r then f + 1 else if even f then f else f + 1)"

definition scaled :: "int \<Rightarrow> int \<Rightarrow> int \<Rightarrow> int \<times> int" where
  "scaled a b e = (if 0 \<le> e then (a, b * 2 ^ nat e) else (a * 2 ^ nat (- e), b))"

definition binade :: "int \<Rightarrow> int \<Rightarrow> int" where
  "binade a b =
     (let e0 = bitlen a - bitlen b - 53
      in case scaled a b e0 of (n, d) \<Rightarrow> if 2 ^ 53 * d \<le> n then e0 + 1 else e0)"

definition round_double :: "rat \<Rightarrow> rat" where
  "round_double q =
     (if q = 0 then 0
      else case quotient_of \<bar>q\<bar> of (a, b) \<Rightarrow>
        (let e = binade a b;
             m = (case scaled a b e of (n, d) \<Rightarrow> round_div n d)
         in sgn q * (if 0 \<le> e then of_int (m * 2 ^ nat e)
                     else of_int m / of_int (2 ^ nat (- e)))))"

definition fmt1 :: "rat \<Rightarrow> int" where
  "fmt1 x = (case quotient_of (x * 10) of (a, b) \<Rightarrow> round_div a b)"

section \<open>Aggregation (pandas operations used by Steps 3 to 9)\<close>

text \<open>
  A series of counts or means is a list of index labels with their values, in index order;
  the value \<open>None\<close> is NaN. \<open>value_counts\<close> counts every value other than the
  missing one in a hash table and orders the result by decreasing count.
\<close>

type_synonym 'v series = "(cell \<times> 'v option) list"

fun bump :: "'k \<Rightarrow> ('k \<times> nat) list \<Rightarrow> ('k \<times> nat) list" where
  "bump k [] = [(k, 1)]"
| "bump k ((k', n) # kvs) = (if k = k' then (k', Suc n) # kvs else (k', n) # bump k kvs)"

definition tally_step :: "(cell \<times> nat) list \<Rightarrow> cell \<Rightarrow> (cell \<times> nat) list" where
  "tally_step acc c = (if c = NA then acc else bump c acc)"

definition tally :: "cell list \<Rightarrow> (cell \<times> nat) list" where
  "tally cs = foldl tally_step [] cs"

definition value_counts :: "cell list \<Rightarrow> nat series" where
  "value_counts cs = map (\<lambda>(k, n). (k, Some n)) (sort_key (\<lambda>(k, n). - int n) (tally cs))"

text \<open>\<open>sort_index\<close> is used on numeric indexes only (hours).\<close>

fun label_key :: "cell \<Rightarrow> real" where
  "label_key (CInt i) = of_int i"
| "label_key (CFlt x) = x"
| "label_key c = 0"

definition sort_index :: "'v series \<Rightarrow> 'v series" where
  "sort_index s = sort_key (\<lambda>(k, v). label_key k) s"

text \<open>\<open>reindex\<close> takes the labels in the given order; a label the series lacks gets NaN.\<close>

definition reindex :: "'v series \<Rightarrow> cell list \<Rightarrow> 'v series" where
  "reindex s order = map (\<lambda>l. (l, case map_of s l of Some v \<Rightarrow> v | None \<Rightarrow> None)) order"

text \<open>
  \<open>idxmax\<close>, \<open>idxmin\<close>, \<open>max\<close> and \<open>min\<close> skip NaN. \<open>idxmax\<close> and \<open>idxmin\<close> give the
  label of the first extremal entry and raise ValueError when nothing is left;
  \<open>max\<close> and \<open>min\<close> give NaN then.
\<close>

fun dropna :: "'v series \<Rightarrow> (cell \<times> 'v) list" where
  "dropna [] = []"
| "dropna ((k, None) # s) = dropna s"
| "dropna ((k, Some v) # s) = (k, v) # dropna s"

fun argbest :: "(nat \<Rightarrow> nat \<Rightarrow> bool) \<Rightarrow> cell \<times> nat \<Rightarrow> (cell \<times> nat) list \<Rightarrow> cell \<times> nat" where
  "argbest better b [] = b"
| "argbest better b (x # xs) = argbest better (if better (snd x) (snd b) then x else b) xs"

definition idxmax :: "nat series \<Rightarrow> error + cell" where
  "idxmax s = (case dropna s of [] \<Rightarrow> Inl ValueError | x # xs \<Rightarrow> Inr (fst (argbest (\<lambda>a b. a > b) x xs)))"

definition idxmin :: "nat series \<Rightarrow> error + cell" where
  "idxmin s = (case dropna s of [] \<Rightarrow> Inl ValueError | x # xs \<Rightarrow> Inr (fst (argbest (\<lambda>a b. a < b) x xs)))"

definition smax :: "nat series \<Rightarrow> nat option" where
  "smax s = (case dropna s of [] \<Rightarrow> None | x # xs \<Rightarrow> Some (foldl max (snd x) (map snd xs)))"

definition smin :: "nat series \<Rightarrow> nat option" where
  "smin s = (case dropna s of [] \<Rightarrow> None | x # xs \<Rightarrow> Some (foldl min (snd x) (map snd xs)))"

subsection \<open>Step 3 aggregates (lines 107, 116--117, 127--128, 159)\<close>

definition day_order :: "cell list" where
  "day_order = map CStr [''Monday'', ''Tuesday'', ''Wednesday'', ''Thursday'', ''Friday'',
     ''Saturday'', ''Sunday'']"

definition period_order :: "cell list" where
  "period_order = map CStr [''Morning'', ''Afternoon'', ''Evening'', ''Night'']"

definition hour_counts :: "dataframe \<Rightarrow> nat series" where
  "hour_counts df = sort_index (value_counts (col df ''Hour''))"

definition day_counts :: "dataframe \<Rightarrow> nat series" where
  "day_counts df = reindex (value_counts (col df ''Day_of_Week'')) day_order"

definition period_counts :: "dataframe \<Rightarrow> nat series" where
  "period_counts df = reindex (value_counts (col df ''Time_Period'')) period_order"

text \<open>
  \<open>pivot_table(values, index, columns, aggfunc='count')\<close> raises KeyError when the values
  label is not a column; otherwise it counts, for each pair of an index label and a column
  label, the rows whose three cells are all present.
\<close>

definition pivot_table :: "dataframe \<Rightarrow> string \<Rightarrow> string \<Rightarrow> string \<Rightarrow> error + ((cell \<times> cell) \<times> nat) list" where
  "pivot_table df vals idx cols =
     (if vals \<notin> set (columns df) then Inl (KeyError vals)
      else Inr (foldl (\<lambda>acc (i, c, v). if i = NA \<or> c = NA \<or> v = NA then acc else bump (i, c) acc) []
                 (zip (col df idx) (zip (col df cols) (col df vals)))))"

subsection \<open>Step 4 aggregates (lines 181, 191)\<close>

text \<open>
  \<open>groupby(key)[value].mean()\<close> leaves out the rows whose key is missing and, within a
  group, the missing values; a group with no value left has mean NaN. A value column that
  is not numeric raises TypeError. The mean is computed on doubles: an integer is converted
  to the nearest double, a float is the double it is; the sum of a group is accumulated with
  a running compensation, every operation rounded to a double, and divided by the number of
  values. The groups come sorted by key (numbers by value, texts by code point). The means
  are then sorted by decreasing value (NaN last) and the first ten are kept.
\<close>

fun numeric :: "cell \<Rightarrow> bool" where
  "numeric (CInt i) = True"
| "numeric (CFlt x) = True"
| "numeric NA = True"
| "numeric c = False"

fun double_of :: "cell \<Rightarrow> rat option" where
  "double_of (CInt i) = Some (round_double (of_int i))"
| "double_of (CFlt x) = Some (of_int \<lfloor>x * 2 ^ 1074\<rfloor> / 2 ^ 1074)"
| "double_of c = None"

definition kahan_add :: "rat \<Rightarrow> rat \<times> rat \<times> nat \<Rightarrow> rat \<times> rat \<times> nat" where
  "kahan_add v a =
     (case a of (sumx, compensation, nobs) \<Rightarrow>
        (let y = round_double (v - compensation);
             t = round_double (sumx + y);
             c = round_double (round_double (t - sumx) - y)
         in (t, c, Suc nobs)))"

definition add_value :: "cell \<Rightarrow> rat \<times> rat \<times> nat \<Rightarrow> rat \<times> rat \<times> nat" where
  "add_value v a = (case double_of v of Some x \<Rightarrow> kahan_add x a | None \<Rightarrow> a)"

fun group_add ::
  "cell \<Rightarrow> cell \<Rightarrow> (cell \<times> rat \<times> rat \<times> nat) list \<Rightarrow> (cell \<times> rat \<times> rat \<times> nat) list" where
  "group_add k v [] = [(k, add_value v (0, 0, 0))]"
| "group_add k v ((k', a) # g) =
     (if k = k' then (k', add_value v a) # g else (k', a) # group_add k v g)"

definition group_step ::
  "(cell \<times> rat \<times> rat \<times> nat) list \<Rightarrow> cell \<times> cell \<Rightarrow> (cell \<times> rat \<times> rat \<times> nat) list" where
  "group_step g kv = (if fst kv = NA then g else group_add (fst kv) (snd kv) g)"

fun str_le :: "string \<Rightarrow> string \<Rightarrow> bool" where
  "str_le [] t = True"
| "str_le (x # s) [] = False"
| "str_le (x # s) (y # t) =
     ((of_char x :: nat) < of_char y \<or> (x = y \<and> str_le s t))"

fun key_le :: "cell \<Rightarrow> cell \<Rightarrow> bool" where
  "key_le (CStr s) (CStr t) = str_le s t"
| "key_le (CStr s) c = False"
| "key_le c (CStr t) = True"
| "key_le c d = (label_key c \<le> label_key d)"

fun insert_group :: "cell \<times> 'a \<Rightarrow> (cell \<times> 'a) list \<Rightarrow> (cell \<times> 'a) list" where
  "insert_group x [] = [x]"
| "insert_group x (y # ys) =
     (if key_le (fst x) (fst y) then x # y # ys else y # insert_group x ys)"

definition sort_groups :: "(cell \<times> 'a) list \<Rightarrow> (cell \<times> 'a) list" where
  "sort_groups g = foldr insert_group g []"

definition groups :: "cell list \<Rightarrow> cell list \<Rightarrow> (cell \<times> rat \<times> rat \<times> nat) list" where
  "groups keys vals = sort_groups (foldl group_step [] (zip keys vals))"

definition groupby_mean :: "dataframe \<Rightarrow> string \<Rightarrow> string \<Rightarrow> error + rat series" where
  "groupby_mean df key val =
     (if list_ex (\<lambda>v. \<not> numeric v) (col df val) then Inl TypeError
      else Inr (map (\<lambda>(k, sumx, compensation, nobs).
                       (k, if nobs = 0 then None else Some (round_double (sumx / of_nat nobs))))
                  (groups (col df key) (col df val))))"

definition sort_values_desc :: "rat series \<Rightarrow> rat series" where
  "sort_values_desc s =
     map (\<lambda>(k, x). (k, Some x)) (sort_key (\<lambda>(k, x). - x) (dropna s))
     @ filter (\<lambda>(k, v). v = None) s"

definition weather_severity :: "dataframe \<Rightarrow> error + rat series" where
  "weather_severity df =
     (case groupby_mean df ''Weather_Condition'' ''Severity'' of
        Inl e \<Rightarrow> Inl e
      | Inr means \<Rightarrow> Inr (take 10 (sort_values_desc means)))"

subsection \<open>Steps 7 and 8: column selection (lines 266--269, 292--296)\<close>

definition env_cols :: "string list" where
  "env_cols = [''Temperature(F)'', ''Humidity(%)'', ''Visibility(mi)'', ''Wind_Speed(mph)'',
     ''Pressure(in)'']"

definition available_env :: "dataframe \<Rightarrow> string list" where
  "available_env df = filter (\<lambda>c. c \<in> set (columns df)) env_cols"

definition numeric_cols :: "string list" where
  "numeric_cols = [''Severity'', ''Temperature(F)'', ''Humidity(%)'', ''Visibility(mi)'',
     ''Wind_Speed(mph)'', ''Pressure(in)'']"

definition available_numeric :: "dataframe \<Rightarrow> string list" where
  "available_numeric df = filter (\<lambda>c. c \<in> set (columns df)) numeric_cols"

text \<open>The columns handed to \<open>corr()\<close>, when the correlation is computed at all.\<close>

definition correlation_columns :: "dataframe \<Rightarrow> string list option" where
  "correlation_columns df =
     (if length (available_numeric df) \<ge> 2 then Some (available_numeric df) else None)"

section \<open>Step 9: summary statistics and report (lines 313--434)\<close>

text \<open>
  Python prints an int in decimal and a whole-valued float with a trailing \<open>.0\<close>; the
  only floats printed here are hours.
\<close>

definition digit :: "nat \<Rightarrow> char" where
  "digit d = ''0123456789'' ! d"

function show_nat :: "nat \<Rightarrow> string" where
  "show_nat n = (if n < 10 then [digit n] else show_nat (n div 10) @ [digit (n mod 10)])"
  by pat_completeness auto
termination
  by (relation "measure id") auto

definition show_int :: "int \<Rightarrow> string" where
  "show_int i = (if i < 0 then CHR ''-'' # show_nat (nat (- i)) else show_nat (nat i))"

fun py_str :: "cell \<Rightarrow> string" where
  "py_str (CInt i) = show_int i"
| "py_str (CFlt x) = show_int \<lfloor>x\<rfloor> @ ''.0''"
| "py_str (CStr s) = s"
| "py_str c = ''nan''"

fun num_add :: "cell \<Rightarrow> int \<Rightarrow> error + cell" where
  "num_add (CInt i) k = Inr (CInt (i + k))"
| "num_add (CFlt x) k = Inr (CFlt (x + of_int k))"
| "num_add NA k = Inr NA"
| "num_add c k = Inl TypeError"

definition bind_e :: "error + 'a \<Rightarrow> ('a \<Rightarrow> error + 'b) \<Rightarrow> error + 'b" where
  "bind_e m f = (case m of Inl e \<Rightarrow> Inl e | Inr x \<Rightarrow> f x)"

text \<open>Line 390: \<open>({peak_hour-1}:00-{peak_hour+2}:00)\<close>.\<close>

definition officers_window :: "cell \<Rightarrow> error + string" where
  "officers_window peak =
     bind_e (num_add peak (- 1)) (\<lambda>lo.
     bind_e (num_add peak 2) (\<lambda>hi.
       Inr (py_str lo @ '':00-'' @ py_str hi @ '':00'')))"

fun num_eq :: "cell \<Rightarrow> int \<Rightarrow> bool" where
  "num_eq (CInt i) k = (i = k)"
| "num_eq (CFlt x) k = (x = of_int k)"
| "num_eq c k = False"

definition count_eq :: "cell list \<Rightarrow> int \<Rightarrow> nat" where
  "count_eq cs k = length (filter (\<lambda>c. num_eq c k) cs)"

text \<open>
  \<open>count / len(df) * 100\<close> is computed in double precision: the quotient of the two
  integers is rounded to the nearest double, and so is its product with 100.
\<close>

definition pct_of :: "nat \<Rightarrow> nat \<Rightarrow> rat" where
  "pct_of c n = round_double (round_double (of_nat c / of_nat n) * 100)"

definition percent :: "nat option \<Rightarrow> nat \<Rightarrow> rat option" where
  "percent c n = map_option (\<lambda>c. pct_of c n) c"

record report =
  total :: nat
  peak_hour :: cell
  peak_hour_count :: "nat option"
  peak_hour_pct :: "rat option"
  lowest_hour :: cell
  lowest_hour_count :: "nat option"
  lowest_hour_pct :: "rat option"
  peak_day :: cell
  peak_day_count :: "nat option"
  peak_day_pct :: "rat option"
  safest_day :: cell
  safest_day_count :: "nat option"
  safest_day_pct :: "rat option"
  peak_period :: cell
  peak_period_count :: "nat option"
  peak_period_pct :: "rat option"
  weekday_accidents :: nat
  weekday_pct :: "rat option"
  weekend_accidents :: nat
  weekend_pct :: "rat option"
  most_common_weather :: "(cell \<times> nat option) option"
  window :: string

text \<open>
  The statistics of lines 313--324 and the parts of the report computed from them. With a
  weather column, line 365 takes the first entry of its value counts and raises IndexError
  when there is none. The date range, the geographic range and the severity levels of the
  report are not modelled.
\<close>

definition most_common :: "dataframe \<Rightarrow> error + (cell \<times> nat option) option" where
  "most_common df =
     (if ''Weather_Condition'' \<in> set (columns df)
      then (case value_counts (col df ''Weather_Condition'') of
              [] \<Rightarrow> Inl IndexError
            | first # _ \<Rightarrow> Inr (Some first))
      else Inr None)"

definition summary :: "dataframe \<Rightarrow> error + report" where
  "summary df =
     bind_e (idxmax (hour_counts df)) (\<lambda>peak_hour.
     bind_e (idxmin (hour_counts df)) (\<lambda>lowest_hour.
     bind_e (idxmax (day_counts df)) (\<lambda>peak_day.
     bind_e (idxmin (day_counts df)) (\<lambda>safest_day.
     bind_e (idxmax (period_counts df)) (\<lambda>peak_period.
     bind_e (most_common df) (\<lambda>weather.
     bind_e (officers_window peak_hour) (\<lambda>w.
       Inr \<lparr> total = len df,
             peak_hour = peak_hour,
             peak_hour_count = smax (hour_counts df),
             peak_hour_pct = percent (smax (hour_counts df)) (len df),
             lowest_hour = lowest_hour,
             lowest_hour_count = smin (hour_counts df),
             lowest_hour_pct = percent (smin (hour_counts df)) (len df),
             peak_day = peak_day,
             peak_day_count = smax (day_counts df),
             peak_day_pct = percent (smax (day_counts df)) (len df),
             safest_day = safest_day,
             safest_day_count = smin (day_counts df),
             safest_day_pct = percent (smin (day_counts df)) (len df),
             peak_period = peak_period,
             peak_period_count = smax (period_counts df),
             peak_period_pct = percent (smax (period_counts df)) (len df),
             weekday_accidents = count_eq (col df ''Is_Weekend'') 0,
             weekday_pct = percent (Some (count_eq (col df ''Is_Weekend'') 0)) (len df),
             weekend_accidents = count_eq (col df ''Is_Weekend'') 1,
             weekend_pct = percent (Some (count_eq (col df ''Is_Weekend'') 1)) (len df),
             most_common_weather = weather,
             window = w \<rparr>)))))))"

section \<open>The whole script\<close>

text \<open>
  A run is observed through its events: the step banners it prints, the derivation of the
  features, the guarded step bodies it enters and the files it saves. The plotting calls
  themselves are taken to succeed. A run ends by \<open>exit()\<close> in Step 1, by an uncaught
  exception, or by completing with the report written.
\<close>

datatype event = Banner nat | Derived | Entered nat | Saved string

datatype outcome = Exited | Raised error | Completed report

record result =
  trace :: "event list"
  outcome :: outcome

type_synonym step = "event list \<times> error option"

definition step3 :: "dataframe \<Rightarrow> step" where
  "step3 df =
     (case pivot_table df ''Severity'' ''Day_of_Week'' ''Hour'' of
        Inl e \<Rightarrow> ([Banner 3], Some e)
      | Inr pivot \<Rightarrow> ([Banner 3, Saved ''time_pattern_analysis.png''], None))"

definition step4 :: "dataframe \<Rightarrow> step" where
  "step4 df =
     (if ''Weather_Condition'' \<in> set (columns df)
      then (if ''Severity'' \<in> set (columns df)
            then (case weather_severity df of
                    Inl e \<Rightarrow> ([Banner 4, Entered 4], Some e)
                  | Inr means \<Rightarrow> ([Banner 4, Entered 4, Saved ''weather_analysis.png''], None))
            else ([Banner 4, Entered 4, Saved ''weather_analysis.png''], None))
      else ([Banner 4], None))"

definition step5 :: "dataframe \<Rightarrow> step" where
  "step5 df =
     (if ''Severity'' \<in> set (columns df)
      then ([Banner 5, Entered 5, Saved ''severity_analysis.png''], None)
      else ([Banner 5], None))"

definition step6 :: "dataframe \<Rightarrow> step" where
  "step6 df =
     (if ''Start_Lat'' \<in> set (columns df) \<and> ''Start_Lng'' \<in> set (columns df)
      then ([Banner 6, Entered 6, Saved ''geographic_hotspots.png''], None)
      else ([Banner 6], None))"

definition step7 :: "dataframe \<Rightarrow> step" where
  "step7 df =
     (if length (available_env df) \<ge> 2
      then ([Banner 7, Entered 7, Saved ''environmental_factors.png''], None)
      else ([Banner 7], None))"

text \<open>
  \<open>df[available_numeric].corr()\<close> raises ValueError when one of the selected columns
  holds a text.
\<close>

definition step8 :: "dataframe \<Rightarrow> step" where
  "step8 df =
     (case correlation_columns df of
        Some cs \<Rightarrow>
          (if list_ex (\<lambda>c. list_ex (\<lambda>v. \<not> numeric v) (col df c)) cs
           then ([Banner 8, Entered 8], Some ValueError)
           else ([Banner 8, Entered 8, Saved ''correlation_matrix.png''], None))
      | None \<Rightarrow> ([Banner 8], None))"

text \<open>Steps run in sequence; an exception ends the run where it is raised.\<close>

fun chain :: "step list \<Rightarrow> step" where
  "chain [] = ([], None)"
| "chain ((ev, Some e) # rest) = (ev, Some e)"
| "chain ((ev, None) # rest) = (case chain rest of (ev', r) \<Rightarrow> (ev @ ev', r))"

definition analyse :: "dataframe \<Rightarrow> result" where
  "analyse df0 =
     (case preprocess df0 of
        Inl e \<Rightarrow> \<lparr> trace = [Banner 1, Banner 2], outcome = Raised e \<rparr>
      | Inr df \<Rightarrow>
          (case chain [step3 df, step4 df, step5 df, step6 df, step7 df, step8 df] of
             (ev, Some e) \<Rightarrow> \<lparr> trace = [Banner 1, Banner 2, Derived] @ ev, outcome = Raised e \<rparr>
           | (ev, None) \<Rightarrow>
               (case summary df of
                  Inl e \<Rightarrow> \<lparr> trace = [Banner 1, Banner 2, Derived] @ ev @ [Banner 9],
                             outcome = Raised e \<rparr>
                | Inr r \<Rightarrow> \<lparr> trace = [Banner 1, Banner 2, Derived] @ ev
                               @ [Banner 9, Saved ''analysis_summary.txt''],
                             outcome = Completed r \<rparr>)))"

definition run :: "archive option \<Rightarrow> result" where
  "run world =
     (case load world of
        Exit \<Rightarrow> \<lparr> trace = [Banner 1], outcome = Exited \<rparr>
      | Loaded csv_file df0 \<Rightarrow> analyse df0)"

section \<open>Example tables\<close>

definition mk_row :: "(string \<times> cell) list \<Rightarrow> string \<Rightarrow> cell" where
  "mk_row kvs c = (case map_of kvs c of Some v \<Rightarrow> v | None \<Rightarrow> NA)"

definition stamp :: "weekday \<Rightarrow> nat \<Rightarrow> cell" where
  "stamp d h = CTime \<lparr> ts_year = 2016, ts_month = 2, ts_dayofweek = d, ts_hour = h \<rparr>"

definition world_of :: "dataframe \<Rightarrow> archive option" where
  "world_of file = Some \<lparr> namelist = [''README.txt'', ''US_Accidents.csv'', ''other.csv''],
                          member = (\<lambda>name. file) \<rparr>"

section \<open>Reference definitions\<close>

text \<open>The number of entries of a column that hold a given value.\<close>

definition occurrences :: "cell list \<Rightarrow> cell \<Rightarrow> nat" where
  "occurrences cs k = length (filter (\<lambda>c. c = k) cs)"

text \<open>The hour column of a table, from its raw Start_Time column.\<close>

definition hours_of :: "dataframe \<Rightarrow> cell list" where
  "hours_of df0 = dt_field (\<lambda>t. int (ts_hour t)) (to_datetime (col df0 ''Start_Time''))"

text \<open>The number a cell holds, if it holds one (NaN holds none).\<close>

fun number :: "cell \<Rightarrow> real option" where
  "number (CInt i) = Some (of_int i)"
| "number (CFlt x) = Some x"
| "number c = None"

text \<open>The four buckets in terms of the number an hour cell holds (lines 84--91).\<close>

definition period_spec :: "cell \<Rightarrow> string \<Rightarrow> bool" where
  "period_spec h l \<longleftrightarrow>
     l \<in> {''Morning'', ''Afternoon'', ''Evening'', ''Night''}
     \<and> (l = ''Morning'' \<longleftrightarrow> (\<exists>x. number h = Some x \<and> 5 \<le> x \<and> x < 12))
     \<and> (l = ''Afternoon'' \<longleftrightarrow> (\<exists>x. number h = Some x \<and> 12 \<le> x \<and> x < 17))
     \<and> (l = ''Evening'' \<longleftrightarrow> (\<exists>x. number h = Some x \<and> 17 \<le> x \<and> x < 21))
     \<and> (l = ''Night'' \<longleftrightarrow> (\<forall>x. number h = Some x \<longrightarrow> x < 5 \<or> 21 \<le> x))"

text \<open>Whether a cell of the parsed timestamp column falls on a Saturday or a Sunday.\<close>

definition on_weekend :: "cell \<Rightarrow> bool" where
  "on_weekend c = (case c of CTime t \<Rightarrow> ts_dayofweek t = Saturday \<or> ts_dayofweek t = Sunday
                   | _ \<Rightarrow> False)"

text \<open>
  A value of a column that occurs there \<open>n\<close> times, and no value present in the column
  occurs more often (less often); the missing value does not count.
\<close>

definition most_frequent :: "cell list \<Rightarrow> cell \<Rightarrow> nat \<Rightarrow> bool" where
  "most_frequent cs k n \<longleftrightarrow>
     k \<noteq> NA \<and> k \<in> set cs \<and> n = occurrences cs k
     \<and> (\<forall>l\<in>set cs. l \<noteq> NA \<longrightarrow> occurrences cs l \<le> n)"

definition least_frequent :: "cell list \<Rightarrow> cell \<Rightarrow> nat \<Rightarrow> bool" where
  "least_frequent cs k n \<longleftrightarrow>
     k \<noteq> NA \<and> k \<in> set cs \<and> n = occurrences cs k
     \<and> (\<forall>l\<in>set cs. l \<noteq> NA \<longrightarrow> n \<le> occurrences cs l)"

text \<open>
  The Severity numbers of the rows whose key is \<open>w\<close> (missing values left out), and the
  arithmetic mean of a list of numbers (none for the empty list).
\<close>

fun whole :: "cell \<Rightarrow> int option" where
  "whole (CInt i) = Some i"
| "whole (CFlt x) = (if x = of_int \<lfloor>x\<rfloor> then Some \<lfloor>x\<rfloor> else None)"
| "whole c = None"

definition picked :: "cell \<Rightarrow> (cell \<times> cell) list \<Rightarrow> int list" where
  "picked w kvs = List.map_filter (\<lambda>(k, v). if k = w then whole v else None) kvs"

definition group_values :: "cell list \<Rightarrow> cell list \<Rightarrow> cell \<Rightarrow> int list" where
  "group_values keys vals w = picked w (zip keys vals)"

definition arithmetic_mean :: "int list \<Rightarrow> rat option" where
  "arithmetic_mean xs =
     (if xs = [] then None else Some (of_int (sum_list xs) / of_nat (length xs)))"

text \<open>A severity code: missing, or a whole number from 0 to below 2 ^ 32.\<close>

definition severity_code :: "cell \<Rightarrow> bool" where
  "severity_code v \<longleftrightarrow>
     v = NA \<or> (\<exists>i. 0 \<le> i \<and> i < 2 ^ 32 \<and> (v = CInt i \<or> v = CFlt (of_int i)))"

text \<open>The files a run saved, in order, and the chart files among them.\<close>

fun saved :: "event list \<Rightarrow> string list" where
  "saved [] = []"
| "saved (Saved f # ev) = f # saved ev"
| "saved (e # ev) = saved ev"

definition charts :: "event list \<Rightarrow> string list" where
  "charts ev = filter (\<lambda>f. endswith f ''.png'') (saved ev)"

text \<open>The events of a guarded step: its banner, then its body and its file if the guard holds.\<close>

definition guarded :: "nat \<Rightarrow> bool \<Rightarrow> string \<Rightarrow> event list" where
  "guarded k g f = (if g then [Banner k, Entered k, Saved f] else [Banner k])"

definition has :: "dataframe \<Rightarrow> string \<Rightarrow> bool" where
  "has df c = (c \<in> set (columns df))"

text \<open>The table after Step 2 (the raw table itself when Step 2 raises).\<close>

definition enriched :: "dataframe \<Rightarrow> dataframe" where
  "enriched df0 = (case preprocess df0 of Inr df \<Rightarrow> df | Inl e \<Rightarrow> df0)"

definition ex_one :: dataframe where
  "ex_one = \<lparr> columns = [''Start_Time'', ''Severity''],
              rows = [mk_row [(''Start_Time'', stamp Monday 0), (''Severity'', CInt 2)]] \<rparr>"

definition ex_env :: dataframe where
  "ex_env = \<lparr> columns = [''Start_Time'', ''Severity'', ''Temperature(F)'', ''Humidity(%)''],
              rows = [mk_row [(''Start_Time'', stamp Friday 17), (''Severity'', CInt 3),
                              (''Temperature(F)'', CFlt 40), (''Humidity(%)'', CFlt 80)]] \<rparr>"

definition ex_nat :: dataframe where
  "ex_nat = \<lparr> columns = [''Start_Time'', ''Severity''],
              rows = [mk_row [(''Start_Time'', stamp Monday 0), (''Severity'', CInt 2)],
                      mk_row [(''Start_Time'', CStr ''not a date''), (''Severity'', CInt 1)]] \<rparr>"

definition ex_week :: dataframe where
  "ex_week = \<lparr> columns = [''Start_Time'', ''Severity''],
               rows = [mk_row [(''Start_Time'', stamp Saturday 8), (''Severity'', CInt 2)],
                       mk_row [(''Start_Time'', stamp Monday 23), (''Severity'', CInt 3)],
                       mk_row [(''Start_Time'', CStr ''not a date''), (''Severity'', CInt 1)]] \<rparr>"

definition ex_late :: dataframe where
  "ex_late = \<lparr> columns = [''Start_Time'', ''Severity''],
               rows = [mk_row [(''Start_Time'', stamp Sunday 23), (''Severity'', CInt 4)]] \<rparr>"

definition ex_days :: dataframe where
  "ex_days = \<lparr> columns = [''Start_Time'', ''Severity'', ''Weather_Condition''],
               rows = [mk_row [(''Start_Time'', stamp Monday 8), (''Severity'', CInt 2),
                               (''Weather_Condition'', CStr ''Rain'')],
                       mk_row [(''Start_Time'', stamp Monday 8), (''Severity'', NA),
                               (''Weather_Condition'', CStr ''Rain'')],
                       mk_row [(''Start_Time'', stamp Tuesday 17), (''Severity'', CInt 3),
                               (''Weather_Condition'', CStr ''Clear'')]] \<rparr>"

definition ex_full :: dataframe where
  "ex_full = \<lparr> columns = [''Start_Time'', ''Severity'', ''Weather_Condition'', ''Start_Lat'',
                           ''Start_Lng'', ''Temperature(F)'', ''Humidity(%)''],
               rows = [mk_row [(''Start_Time'', stamp Friday 17), (''Severity'', CInt 3),
                               (''Weather_Condition'', CStr ''Rain''), (''Start_Lat'', CFlt 40),
                               (''Start_Lng'', CFlt (- 83)), (''Temperature(F)'', CFlt 37),
                               (''Humidity(%)'', CFlt 91)]] \<rparr>"

definition ex_notime :: dataframe where
  "ex_notime = \<lparr> columns = [''Severity'', ''Weather_Condition''],
                 rows = [mk_row [(''Severity'', CInt 3), (''Weather_Condition'', CStr ''Rain'')]] \<rparr>"

definition ex_nosev :: dataframe where
  "ex_nosev = \<lparr> columns = [''Start_Time'', ''Weather_Condition''],
                rows = [mk_row [(''Start_Time'', stamp Friday 17),
                                (''Weather_Condition'', CStr ''Rain'')]] \<rparr>"

definition ex_80 :: dataframe where
  "ex_80 = \<lparr> columns = [''Start_Time'', ''Severity''],
             rows = replicate 23 (mk_row [(''Start_Time'', stamp Saturday 8), (''Severity'', CInt 2)])
                    @ replicate 57 (mk_row [(''Start_Time'', stamp Monday 8), (''Severity'', CInt 2)]) \<rparr>"

definition ex_thirds :: dataframe where
  "ex_thirds = \<lparr> columns = [''Start_Time'', ''Severity'', ''Weather_Condition''],
                 rows = [mk_row [(''Start_Time'', stamp Monday 8), (''Severity'', CInt 1),
                                 (''Weather_Condition'', CStr ''Rain'')],
                         mk_row [(''Start_Time'', stamp Monday 8), (''Severity'', CInt 2),
                                 (''Weather_Condition'', CStr ''Rain'')],
                         mk_row [(''Start_Time'', stamp Tuesday 17), (''Severity'', CInt 2),
                                 (''Weather_Condition'', CStr ''Rain'')]] \<rparr>"

text \<open>
  A reported percentage \<open>p\<close> is near the exact percentage of \<open>c\<close> out of \<open>n\<close>: the two
  differ by at most the exact percentage divided by \<open>2 ^ 51\<close>, the room two roundings to
  double precision leave.
\<close>

definition exact_percentage :: "nat \<Rightarrow> nat \<Rightarrow> rat" where
  "exact_percentage c n = of_nat c / of_nat n * 100"

definition near_percentage :: "rat \<Rightarrow> nat \<Rightarrow> nat \<Rightarrow> bool" where
  "near_percentage p c n \<longleftrightarrow>
     \<bar>p - exact_percentage c n\<bar> \<le> exact_percentage c n / 2 ^ 51"

section \<open>Properties\<close>

subsection \<open>Column assignment\<close>

lemma map_upd_zip_same:
  "length rs = length vs \<Longrightarrow> map (\<lambda>r. r c) (map (\<lambda>(r, v). r(c := v)) (zip rs vs)) = vs"
  by (induction rs vs rule: list_induct2) auto

lemma map_upd_zip_other:
  "length rs = length vs \<Longrightarrow> c' \<noteq> c \<Longrightarrow>
   map (\<lambda>r. r c') (map (\<lambda>(r, v). r(c := v)) (zip rs vs)) = map (\<lambda>r. r c') rs"
  by (induction rs vs rule: list_induct2) auto

lemma length_setcol:
  "length (rows df) = length vs \<Longrightarrow> length (rows (setcol df c vs)) = length (rows df)"
  by (simp add: setcol_def)

lemma col_setcol_same: "length (rows df) = length vs \<Longrightarrow> col (setcol df c vs) c = vs"
  unfolding setcol_def col_def by (simp only: dataframe.simps map_upd_zip_same)

lemma col_setcol_other:
  "length (rows df) = length vs \<Longrightarrow> c' \<noteq> c \<Longrightarrow> col (setcol df c vs) c' = col df c'"
  using map_upd_zip_other[of "rows df" vs c' c] by (simp add: setcol_def col_def)

lemma length_col: "length (col df c) = length (rows df)"
  by (simp add: col_def)

lemma columns_setcol: "set (columns (setcol df c vs)) = insert c (set (columns df))"
  by (auto simp: setcol_def)

lemma length_dt_field: "length (dt_field f cs) = length cs"
  by (simp add: dt_field_def)

lemma length_dt_text: "length (dt_text f cs) = length cs"
  by (simp add: dt_text_def)

lemma length_to_datetime: "length (to_datetime cs) = length cs"
  by (simp add: to_datetime_def)

lemma length_astype_int: "length (astype_int cs) = length cs"
  by (simp add: astype_int_def)

lemmas frame = length_setcol col_setcol_same col_setcol_other length_col length_dt_field
  length_dt_text length_to_datetime length_astype_int

subsection \<open>Feature derivation succeeds exactly when the timestamp column exists\<close>

lemma apply_series_total:
  "\<forall>c\<in>set cs. \<exists>v. f c = Inr v \<Longrightarrow>
   apply_series f cs = Inr (map (\<lambda>c. CStr (projr (f c))) cs)"
  by (induction cs) (auto split: sum.splits)

lemma comparable_dt_field: "c \<in> set (dt_field f cs) \<Longrightarrow> comparable c"
  by (auto simp: dt_field_def split: cell.splits if_splits)

lemma gtp_total: "comparable c \<Longrightarrow> \<exists>v. get_time_period c = Inr v"
  by (simp add: get_time_period_def)

lemma apply_hours:
  "apply_series get_time_period (dt_field f cs) =
   Inr (map (\<lambda>c. CStr (projr (get_time_period c))) (dt_field f cs))"
  by (rule apply_series_total) (auto dest!: comparable_dt_field gtp_total)

lemma preprocess_KeyError:
  "''Start_Time'' \<notin> set (columns df0) \<Longrightarrow> preprocess df0 = Inl (KeyError ''Start_Time'')"
  by (simp add: preprocess_def getcol_def)

lemma preprocess_Inr:
  assumes "''Start_Time'' \<in> set (columns df0)"
  shows "\<exists>df. preprocess df0 = Inr df"
  using assms by (simp add: preprocess_def getcol_def Let_def frame apply_hours)

lemma preprocess_cols:
  assumes "preprocess df0 = Inr df"
  shows "col df ''Hour'' = hours_of df0"
    and "col df ''Time_Period'' = map (\<lambda>c. CStr (projr (get_time_period c))) (hours_of df0)"
    and "col df ''Day_of_Week'' =
           dt_text (\<lambda>t. day_name (ts_dayofweek t)) (to_datetime (col df0 ''Start_Time''))"
    and "col df ''Is_Weekend'' =
           astype_int (map (isin [5, 6])
             (dt_field (\<lambda>t. dayofweek (ts_dayofweek t)) (to_datetime (col df0 ''Start_Time''))))"
    and "length (rows df) = length (rows df0)"
  using assms
  by (auto simp add: preprocess_def getcol_def Let_def frame apply_hours hours_of_def
      split: if_splits)

subsection \<open>Counting\<close>

lemma map_of_bump:
  "map_of (bump k kvs) k' =
     (if k' = k then Some (case map_of kvs k of None \<Rightarrow> 1 | Some n \<Rightarrow> Suc n) else map_of kvs k')"
  by (induction kvs) auto

lemma map_fst_bump: "fst ` set (bump k kvs) = insert k (fst ` set kvs)"
proof -
  have "dom (map_of (bump k kvs)) = insert k (dom (map_of kvs))"
    by (auto simp: map_of_bump dom_def)
  then show ?thesis by (simp add: dom_map_of_conv_image_fst)
qed

lemma distinct_bump: "distinct (map fst kvs) \<Longrightarrow> distinct (map fst (bump k kvs))"
proof (induction kvs)
  case Nil then show ?case by simp
next
  case (Cons a kvs)
  obtain k' n where a: "a = (k', n)" by (cases a)
  have "k' \<notin> fst ` set (bump k kvs)" if "k \<noteq> k'"
    using Cons.prems that unfolding map_fst_bump a by auto
  with Cons a show ?case by auto
qed

lemma distinct_tally_step: "distinct (map fst acc) \<Longrightarrow> distinct (map fst (tally_step acc c))"
  by (simp add: tally_step_def distinct_bump)

lemma distinct_tally_fold:
  "distinct (map fst acc) \<Longrightarrow> distinct (map fst (foldl tally_step acc cs))"
  by (induction cs arbitrary: acc) (simp_all add: distinct_tally_step)

lemma map_of_tally_fold:
  "map_of (foldl tally_step acc cs) k =
     (if k \<noteq> NA \<and> k \<in> set cs
      then Some (occurrences cs k + (case map_of acc k of None \<Rightarrow> 0 | Some n \<Rightarrow> n))
      else map_of acc k)"
proof (induction cs arbitrary: acc)
  case Nil then show ?case by simp
next
  case (Cons c cs)
  have "map_of (foldl tally_step acc (c # cs)) k =
     (if k \<noteq> NA \<and> k \<in> set cs
      then Some (occurrences cs k + (case map_of (tally_step acc c) k of None \<Rightarrow> 0 | Some n \<Rightarrow> n))
      else map_of (tally_step acc c) k)"
    by (simp only: foldl_Cons Cons.IH)
  also have "\<dots> = (if k \<noteq> NA \<and> k \<in> set (c # cs)
      then Some (occurrences (c # cs) k + (case map_of acc k of None \<Rightarrow> 0 | Some n \<Rightarrow> n))
      else map_of acc k)"
    unfolding tally_step_def
    by (cases "c = NA")
       (auto simp: map_of_bump occurrences_def filter_empty_conv split: option.splits)
  finally show ?case .
qed

lemma map_of_tally:
  "map_of (tally cs) k = (if k \<noteq> NA \<and> k \<in> set cs then Some (occurrences cs k) else None)"
  by (simp add: tally_def map_of_tally_fold)

lemma distinct_tally: "distinct (map fst (tally cs))"
  by (simp add: tally_def distinct_tally_fold)

lemma distinct_fst_insort:
  "distinct (map fst (insort_key f x xs)) = (fst x \<notin> fst ` set xs \<and> distinct (map fst xs))"
  by (induction xs) (auto simp: set_insort_key)

lemma map_of_insort:
  "fst x \<notin> fst ` set xs \<Longrightarrow> map_of (insort_key f x xs) = map_of (x # xs)"
proof (induction xs)
  case Nil then show ?case by simp
next
  case (Cons a xs)
  then have "fst x \<noteq> fst a" "fst x \<notin> fst ` set xs" by auto
  with Cons.IH show ?case by (cases x; cases a) (auto simp: fun_upd_twist)
qed

lemma distinct_fst_sort_key: "distinct (map fst (sort_key f xs)) = distinct (map fst xs)"
  by (induction xs) (auto simp: distinct_fst_insort)

lemma map_of_sort_key: "distinct (map fst xs) \<Longrightarrow> map_of (sort_key f xs) = map_of xs"
  by (induction xs) (auto simp: map_of_insort)

lemma map_fst_counts: "map fst (map (\<lambda>(k, n). (k, Some n)) xs) = map fst xs"
  by (induction xs) auto

lemma distinct_value_counts: "distinct (map fst (value_counts cs))"
  by (simp add: value_counts_def map_fst_counts distinct_fst_sort_key distinct_tally del: map_map)

lemma map_of_value_counts:
  "map_of (value_counts cs) k =
     (if k \<noteq> NA \<and> k \<in> set cs then Some (Some (occurrences cs k)) else None)"
  by (simp add: value_counts_def map_of_map map_of_sort_key distinct_tally map_of_tally)

lemma map_of_sort_index: "distinct (map fst s) \<Longrightarrow> map_of (sort_index s) = map_of s"
  by (simp add: sort_index_def map_of_sort_key)

lemma distinct_sort_index: "distinct (map fst (sort_index s)) = distinct (map fst s)"
  by (simp add: sort_index_def distinct_fst_sort_key)

lemma map_of_reindex:
  "map_of (reindex s order) l =
     (if l \<in> set order then Some (case map_of s l of Some v \<Rightarrow> v | None \<Rightarrow> None) else None)"
  by (induction order) (auto simp: reindex_def)

lemma map_fst_reindex: "map fst (reindex s order) = order"
  by (simp add: reindex_def comp_def)

lemma preprocess_columns:
  assumes "preprocess df0 = Inr df"
  shows "set (columns df) = set (columns df0) \<union>
    {''Hour'', ''Day_of_Week'', ''Month'', ''Month_Name'', ''Year'', ''Is_Weekend'', ''Time_Period''}"
  using assms
  by (auto simp add: preprocess_def getcol_def Let_def columns_setcol apply_hours frame
      split: if_splits)

lemma preprocess_enriched:
  "''Start_Time'' \<in> set (columns df0) \<Longrightarrow> preprocess df0 = Inr (enriched df0)"
  using preprocess_Inr[of df0] by (auto simp: enriched_def)

lemma available_numeric_preprocess:
  assumes "preprocess df0 = Inr df"
  shows "available_numeric df = available_numeric df0"
  unfolding available_numeric_def preprocess_columns[OF assms]
  by (simp add: numeric_cols_def)

lemma available_env_preprocess:
  assumes "preprocess df0 = Inr df"
  shows "available_env df = available_env df0"
  unfolding available_env_def preprocess_columns[OF assms]
  by (simp add: env_cols_def)

lemma distinct_numeric_cols: "distinct numeric_cols"
  by (simp add: numeric_cols_def)

lemma set_numeric_cols: "set numeric_cols = insert ''Severity'' (set env_cols)"
  by (simp add: numeric_cols_def env_cols_def)

lemma ex_env_enriched: "preprocess ex_env = Inr (enriched ex_env)"
  by (rule preprocess_enriched) (simp add: ex_env_def)

section \<open>Claims\<close>

text \<open>
  C5 (as amended). The columns handed to the correlation are those of Severity and the five
  environmental columns that exist in the table, each once, and the correlation is computed
  only when at least two of them exist.
\<close>

theorem correlation_columns_numeric:
  "(\<forall>cs. correlation_columns df = Some cs \<longrightarrow>
       set cs = insert ''Severity'' (set env_cols) \<inter> set (columns df)
       \<and> distinct cs \<and> 2 \<le> length cs)
   \<and> (correlation_columns df = None \<longleftrightarrow>
        card (insert ''Severity'' (set env_cols) \<inter> set (columns df)) < 2)"
proof -
  have s: "set (available_numeric df) = insert ''Severity'' (set env_cols) \<inter> set (columns df)"
    by (auto simp: available_numeric_def set_numeric_cols)
  have d: "distinct (available_numeric df)"
    by (simp add: available_numeric_def distinct_numeric_cols)
  have "length (available_numeric df) = card (set (available_numeric df))"
    using d by (simp add: distinct_card)
  with s d show ?thesis by (auto simp: correlation_columns_def)
qed

theorem correlation_columns_numeric_witness:
  "correlation_columns (enriched ex_env) = Some [''Severity'', ''Temperature(F)'', ''Humidity(%)'']
   \<and> set [''Severity'', ''Temperature(F)'', ''Humidity(%)'']
       = insert ''Severity'' (set env_cols) \<inter> set (columns (enriched ex_env))"
proof -
  have c: "correlation_columns (enriched ex_env)
             = Some [''Severity'', ''Temperature(F)'', ''Humidity(%)'']"
    by (simp add: correlation_columns_def available_numeric_preprocess[OF ex_env_enriched])
       (simp add: available_numeric_def numeric_cols_def ex_env_def)
  from correlation_columns_numeric[of "enriched ex_env"] c show ?thesis by blast
qed

text \<open>
  The claim as stated fails on a table with the columns Start_Time, Severity, Temperature(F)
  and Humidity(%): the environmental columns that exist are the last two, and the
  correlation is computed over Severity as well.
\<close>

theorem correlation_columns_counterexample:
  "available_env (enriched ex_env) = [''Temperature(F)'', ''Humidity(%)'']
   \<and> correlation_columns (enriched ex_env)
       = Some [''Severity'', ''Temperature(F)'', ''Humidity(%)'']"
proof -
  have c: "correlation_columns (enriched ex_env)
             = Some [''Severity'', ''Temperature(F)'', ''Humidity(%)'']"
    by (simp add: correlation_columns_def available_numeric_preprocess[OF ex_env_enriched])
       (simp add: available_numeric_def numeric_cols_def ex_env_def)
  have "available_env (enriched ex_env) = [''Temperature(F)'', ''Humidity(%)'']"
    by (simp add: available_env_preprocess[OF ex_env_enriched])
       (simp add: available_env_def env_cols_def ex_env_def)
  with c show ?thesis by simp
qed

text \<open>
  C4. When the listing of the archive is \<open>pre @ f # post\<close> with \<open>f\<close> its first entry
  ending in \<open>.csv\<close>, the loader reads the member \<open>f\<close>, and the table it loads has
  at most 50000 rows: the first 50000 of the file, or all of them when there are fewer.
\<close>

theorem loader_first_csv:
  assumes "namelist z = pre @ f # post" and "endswith f ''.csv''"
    and "\<forall>g\<in>set pre. \<not> endswith g ''.csv''"
  shows "load (Some z) = Loaded f (read_csv (member z f) 50000)
         \<and> len (read_csv (member z f) 50000) \<le> 50000
         \<and> len (read_csv (member z f) 50000) = min 50000 (len (member z f))"
proof -
  have "filter (\<lambda>f. endswith f ''.csv'') pre = []"
    using assms(3) by (simp add: filter_empty_conv)
  then have "filter (\<lambda>f. endswith f ''.csv'') (namelist z) = f # filter (\<lambda>f. endswith f ''.csv'') post"
    using assms(1,2) by simp
  then show ?thesis by (simp add: load_def read_csv_def len_def Let_def)
qed

theorem loader_first_csv_witness:
  "load (world_of ex_one) = Loaded ''US_Accidents.csv'' (read_csv ex_one 50000)
   \<and> len (read_csv ex_one 50000) \<le> 50000"
proof -
  let ?z = "\<lparr> namelist = [''README.txt'', ''US_Accidents.csv'', ''other.csv''], member = (\<lambda>name. ex_one) \<rparr>"
  have 1: "namelist ?z = [''README.txt''] @ ''US_Accidents.csv'' # [''other.csv'']" by simp
  have 2: "endswith ''US_Accidents.csv'' ''.csv''" by (simp add: endswith_def)
  have 3: "\<forall>g\<in>set [''README.txt'']. \<not> endswith g ''.csv''" by (simp add: endswith_def)
  from loader_first_csv[OF 1 2 3] show ?thesis by (simp add: world_of_def)
qed

lemma gtp_cases:
  assumes "comparable h"
  shows "\<exists>l. get_time_period h = Inr l \<and> period_spec h l"
  using assms by (cases h) (auto simp: get_time_period_def period_spec_def)

lemma comparable_hours: "i < length (hours_of df0) \<Longrightarrow> comparable (hours_of df0 ! i)"
  by (rule comparable_dt_field[of _ "\<lambda>t. int (ts_hour t)" "to_datetime (col df0 ''Start_Time'')"])
     (simp add: hours_of_def)

lemma length_hours_of: "length (hours_of df0) = length (rows df0)"
  by (simp add: hours_of_def frame)

text \<open>
  C2. In every row of the table after Step 2, the time period is one of the four buckets and
  is the value of \<open>get_time_period\<close> at the hour of that row: Morning exactly for
  5 \<le> hour < 12, Afternoon exactly for 12 \<le> hour < 17, Evening exactly for
  17 \<le> hour < 21, and Night otherwise, which for an hour that is a number means
  hour < 5 or hour \<ge> 21.
\<close>

theorem time_period_of_hour:
  assumes "preprocess df0 = Inr df" and "i < len df"
  shows "\<exists>l. col df ''Time_Period'' ! i = CStr l
    \<and> get_time_period (col df ''Hour'' ! i) = Inr l
    \<and> l \<in> {''Morning'', ''Afternoon'', ''Evening'', ''Night''}
    \<and> (l = ''Morning'' \<longleftrightarrow> (\<exists>x. number (col df ''Hour'' ! i) = Some x \<and> 5 \<le> x \<and> x < 12))
    \<and> (l = ''Afternoon'' \<longleftrightarrow> (\<exists>x. number (col df ''Hour'' ! i) = Some x \<and> 12 \<le> x \<and> x < 17))
    \<and> (l = ''Evening'' \<longleftrightarrow> (\<exists>x. number (col df ''Hour'' ! i) = Some x \<and> 17 \<le> x \<and> x < 21))
    \<and> (l = ''Night'' \<longleftrightarrow> (\<forall>x. number (col df ''Hour'' ! i) = Some x \<longrightarrow> x < 5 \<or> 21 \<le> x))"
proof -
  have n: "i < length (hours_of df0)"
    using assms by (simp add: len_def preprocess_cols(5) length_hours_of)
  obtain l where l: "get_time_period (hours_of df0 ! i) = Inr l" "period_spec (hours_of df0 ! i) l"
    using gtp_cases[OF comparable_hours[OF n]] by blast
  have t: "col df ''Time_Period'' ! i = CStr l"
    using n l(1) by (simp add: preprocess_cols(2)[OF assms(1)])
  have "\<exists>l. col df ''Time_Period'' ! i = CStr l
    \<and> get_time_period (col df ''Hour'' ! i) = Inr l \<and> period_spec (col df ''Hour'' ! i) l"
    using t l unfolding preprocess_cols(1)[OF assms(1)] by blast
  then show ?thesis unfolding period_spec_def .
qed

lemma ex_nat_enriched: "preprocess ex_nat = Inr (enriched ex_nat)"
  by (rule preprocess_enriched) (simp add: ex_nat_def)

lemma hours_ex_nat: "hours_of ex_nat = [CFlt 0, NA]"
  by (simp add: hours_of_def ex_nat_def col_def mk_row_def to_datetime_def dt_field_def stamp_def)

theorem time_period_of_hour_witness:
  "col (enriched ex_nat) ''Hour'' ! 0 = CFlt 0 \<and> col (enriched ex_nat) ''Time_Period'' ! 0 = CStr ''Night''"
proof -
  have h: "col (enriched ex_nat) ''Hour'' = [CFlt 0, NA]"
    using preprocess_cols(1)[OF ex_nat_enriched] hours_ex_nat by simp
  have n: "0 < len (enriched ex_nat)"
    using preprocess_cols(5)[OF ex_nat_enriched] by (simp add: len_def ex_nat_def)
  have "\<exists>l. col (enriched ex_nat) ''Time_Period'' ! 0 = CStr l
    \<and> get_time_period (col (enriched ex_nat) ''Hour'' ! 0) = Inr l
    \<and> period_spec (col (enriched ex_nat) ''Hour'' ! 0) l"
    unfolding period_spec_def by (rule time_period_of_hour[OF ex_nat_enriched n])
  then obtain l where "col (enriched ex_nat) ''Time_Period'' ! 0 = CStr l"
    "period_spec (CFlt 0) l" unfolding h by auto
  then show ?thesis unfolding h by (simp add: period_spec_def)
qed

lemma dt_field_map: "\<exists>g. g NA = NA \<and> dt_field f cs = map g cs"
proof (cases "NA \<in> set cs")
  case True
  then have "dt_field f cs = map (\<lambda>c. case c of CTime t \<Rightarrow> CFlt (of_int (f t)) | _ \<Rightarrow> NA) cs"
    by (simp add: dt_field_def)
  then show ?thesis by (intro exI[of _ "\<lambda>c. case c of CTime t \<Rightarrow> CFlt (of_int (f t)) | _ \<Rightarrow> NA"]) simp
next
  case False
  then have "dt_field f cs = map (\<lambda>c. case c of CTime t \<Rightarrow> CInt (f t) | _ \<Rightarrow> NA) cs"
    by (simp add: dt_field_def)
  then show ?thesis by (intro exI[of _ "\<lambda>c. case c of CTime t \<Rightarrow> CInt (f t) | _ \<Rightarrow> NA"]) simp
qed

lemma occurrences_map_le:
  "(\<And>x. x = a \<Longrightarrow> g x = b) \<Longrightarrow> occurrences xs a \<le> occurrences (map g xs) b"
  by (induction xs) (auto simp: occurrences_def)

lemma gtp_NA: "get_time_period NA = Inr ''Night''"
  by (simp add: get_time_period_def)

lemma occurrences_pos: "0 < occurrences xs a \<longleftrightarrow> a \<in> set xs"
  by (induction xs) (auto simp: occurrences_def)

lemma nat_rows_night:
  assumes "preprocess df0 = Inr df"
  shows "occurrences (to_datetime (col df0 ''Start_Time'')) NA
          \<le> occurrences (col df ''Time_Period'') (CStr ''Night'')"
proof -
  obtain g where g: "g NA = NA" "hours_of df0 = map g (to_datetime (col df0 ''Start_Time''))"
    unfolding hours_of_def using dt_field_map by blast
  show ?thesis
    unfolding preprocess_cols(2)[OF assms] g(2) map_map
    by (rule occurrences_map_le) (simp add: g(1) gtp_NA)
qed

lemma nat_row_night:
  assumes "preprocess df0 = Inr df" and "i < len df"
    and "to_datetime (col df0 ''Start_Time'') ! i = NA"
  shows "col df ''Hour'' ! i = NA \<and> col df ''Time_Period'' ! i = CStr ''Night''"
proof -
  obtain g where g: "g NA = NA" "hours_of df0 = map g (to_datetime (col df0 ''Start_Time''))"
    unfolding hours_of_def using dt_field_map by blast
  have n: "i < length (to_datetime (col df0 ''Start_Time''))"
    using assms(2) by (simp add: len_def preprocess_cols(5)[OF assms(1)] frame)
  have h: "hours_of df0 ! i = NA" using n assms(3) g by simp
  have "i < length (hours_of df0)" using n g(2) by simp
  then show ?thesis
    using h by (simp add: preprocess_cols(1,2)[OF assms(1)] gtp_NA)
qed

lemma night_counted:
  assumes "preprocess df0 = Inr df" and "NA \<in> set (to_datetime (col df0 ''Start_Time''))"
  shows "map_of (period_counts df) (CStr ''Night'')
           = Some (Some (occurrences (col df ''Time_Period'') (CStr ''Night'')))"
proof -
  have "0 < occurrences (to_datetime (col df0 ''Start_Time'')) NA"
    using assms(2) by (simp add: occurrences_pos)
  then have "0 < occurrences (col df ''Time_Period'') (CStr ''Night'')"
    using nat_rows_night[OF assms(1)] by simp
  then have "CStr ''Night'' \<in> set (col df ''Time_Period'')" by (simp add: occurrences_pos)
  then show ?thesis
    by (simp add: period_counts_def map_of_reindex map_of_value_counts period_order_def)
qed

text \<open>
  C8. \<open>get_time_period\<close> returns one of the four labels on every input its comparisons
  are defined on (any int, any float, NaN), whatever its range; an input that passes none of
  the three range tests, NaN included, gives Night. So a row whose timestamp did not parse
  has NaN as its hour and Night as its period, and the Night entry of the period counts
  counts all such rows.
\<close>

theorem get_time_period_total:
  "(comparable h \<longrightarrow> (\<exists>l. get_time_period h = Inr l
        \<and> l \<in> {''Morning'', ''Afternoon'', ''Evening'', ''Night''}))
   \<and> (comparable h \<and> \<not> (num_le 5 h \<and> num_lt h 12) \<and> \<not> (num_le 12 h \<and> num_lt h 17)
        \<and> \<not> (num_le 17 h \<and> num_lt h 21) \<longrightarrow> get_time_period h = Inr ''Night'')
   \<and> get_time_period NA = Inr ''Night''
   \<and> (preprocess df0 = Inr df \<longrightarrow>
        (\<forall>i < len df. to_datetime (col df0 ''Start_Time'') ! i = NA \<longrightarrow>
           col df ''Hour'' ! i = NA \<and> col df ''Time_Period'' ! i = CStr ''Night''))
   \<and> (preprocess df0 = Inr df \<and> NA \<in> set (to_datetime (col df0 ''Start_Time'')) \<longrightarrow>
        map_of (period_counts df) (CStr ''Night'')
          = Some (Some (occurrences (col df ''Time_Period'') (CStr ''Night'')))
        \<and> occurrences (to_datetime (col df0 ''Start_Time'')) NA
            \<le> occurrences (col df ''Time_Period'') (CStr ''Night''))"
proof (intro conjI impI allI)
  assume "comparable h"
  then show "\<exists>l. get_time_period h = Inr l \<and> l \<in> {''Morning'', ''Afternoon'', ''Evening'', ''Night''}"
    by (simp add: get_time_period_def)
next
  assume "comparable h \<and> \<not> (num_le 5 h \<and> num_lt h 12) \<and> \<not> (num_le 12 h \<and> num_lt h 17)
        \<and> \<not> (num_le 17 h \<and> num_lt h 21)"
  then show "get_time_period h = Inr ''Night''" by (simp add: get_time_period_def)
next
  show "get_time_period NA = Inr ''Night''" by (rule gtp_NA)
next
  fix i assume "preprocess df0 = Inr df" "i < len df" "to_datetime (col df0 ''Start_Time'') ! i = NA"
  then show "col df ''Hour'' ! i = NA" "col df ''Time_Period'' ! i = CStr ''Night''"
    using nat_row_night by blast+
next
  assume a: "preprocess df0 = Inr df \<and> NA \<in> set (to_datetime (col df0 ''Start_Time''))"
  then show "map_of (period_counts df) (CStr ''Night'')
          = Some (Some (occurrences (col df ''Time_Period'') (CStr ''Night'')))"
    using night_counted by blast
  from a show "occurrences (to_datetime (col df0 ''Start_Time'')) NA
            \<le> occurrences (col df ''Time_Period'') (CStr ''Night'')"
    using nat_rows_night by blast
qed

lemma st_ex_nat: "to_datetime (col ex_nat ''Start_Time'') = [stamp Monday 0, NA]"
  by (simp add: ex_nat_def col_def mk_row_def to_datetime_def stamp_def)

lemma periods_ex_nat: "col (enriched ex_nat) ''Time_Period'' = [CStr ''Night'', CStr ''Night'']"
  by (simp add: preprocess_cols(2)[OF ex_nat_enriched] hours_ex_nat get_time_period_def)

theorem get_time_period_total_witness:
  "get_time_period (CFlt (-3)) = Inr ''Night''
   \<and> col (enriched ex_nat) ''Time_Period'' ! 1 = CStr ''Night''
   \<and> map_of (period_counts (enriched ex_nat)) (CStr ''Night'') = Some (Some 2)"
proof -
  note t = get_time_period_total[of "CFlt (-3)" ex_nat "enriched ex_nat"]
  have 1: "get_time_period (CFlt (-3)) = Inr ''Night''" using t by simp
  have n: "1 < len (enriched ex_nat)"
    using preprocess_cols(5)[OF ex_nat_enriched] by (simp add: len_def ex_nat_def)
  have 2: "col (enriched ex_nat) ''Time_Period'' ! 1 = CStr ''Night''"
    using t ex_nat_enriched n by (simp add: st_ex_nat)
  have "map_of (period_counts (enriched ex_nat)) (CStr ''Night'')
          = Some (Some (occurrences (col (enriched ex_nat) ''Time_Period'') (CStr ''Night'')))"
    using t ex_nat_enriched by (simp add: st_ex_nat)
  then have 3: "map_of (period_counts (enriched ex_nat)) (CStr ''Night'') = Some (Some 2)"
    by (simp add: periods_ex_nat occurrences_def)
  from 1 2 3 show ?thesis by simp
qed

lemma isin_weekend_int: "isin [5, 6] (CInt (dayofweek d)) = (d = Saturday \<or> d = Sunday)"
  by (cases d) simp_all

lemma isin_weekend_flt: "isin [5, 6] (CFlt (of_int (dayofweek d))) = (d = Saturday \<or> d = Sunday)"
  by (cases d) simp_all

lemma flag_int:
  "isin [5, 6] (case c of CTime t \<Rightarrow> CInt (dayofweek (ts_dayofweek t)) | _ \<Rightarrow> NA) = on_weekend c"
proof (cases c)
  case (CTime t)
  then show ?thesis using isin_weekend_int[of "ts_dayofweek t"] by (simp add: on_weekend_def del: isin.simps)
qed (simp_all add: on_weekend_def)

lemma flag_flt:
  "isin [5, 6] (case c of CTime t \<Rightarrow> CFlt (of_int (dayofweek (ts_dayofweek t))) | _ \<Rightarrow> NA) = on_weekend c"
proof (cases c)
  case (CTime t)
  then show ?thesis using isin_weekend_flt[of "ts_dayofweek t"] by (simp add: on_weekend_def del: isin.simps)
qed (simp_all add: on_weekend_def)

lemma weekend_flags:
  "astype_int (map (isin [5, 6]) (dt_field (\<lambda>t. dayofweek (ts_dayofweek t)) cs))
     = map (\<lambda>c. CInt (if on_weekend c then 1 else 0)) cs"
  unfolding dt_field_def astype_int_def
  by (simp add: comp_def flag_int flag_flt del: isin.simps)

lemma is_weekend_col:
  assumes "preprocess df0 = Inr df"
  shows "col df ''Is_Weekend''
     = map (\<lambda>c. CInt (if on_weekend c then 1 else 0)) (to_datetime (col df0 ''Start_Time''))"
  by (simp only: preprocess_cols(4)[OF assms] weekend_flags)

lemma count_eq_flags:
  "count_eq (map (\<lambda>c. CInt (if P c then 1 else 0)) xs) 0
   + count_eq (map (\<lambda>c. CInt (if P c then 1 else 0)) xs) 1 = length xs"
  by (induction xs) (auto simp: count_eq_def)

lemma dropna_Nil: "s = [] \<Longrightarrow> dropna s = []" by simp

lemma tally_Nil: "tally [] = []" by (simp add: tally_def)

lemma value_counts_Nil: "value_counts [] = []" by (simp add: value_counts_def tally_Nil)

lemma idxmax_nonempty: "idxmax s = Inr k \<Longrightarrow> s \<noteq> []"
  by (auto simp: idxmax_def)

lemma sort_key_Nil_iff: "sort_key f xs = [] \<longleftrightarrow> xs = []"
  by (metis length_sort length_0_conv)

lemma hour_counts_nonempty: "hour_counts df \<noteq> [] \<Longrightarrow> 0 < len df"
proof (rule ccontr)
  assume a: "hour_counts df \<noteq> []" and "\<not> 0 < len df"
  then have "col df ''Hour'' = []" by (simp add: len_def col_def)
  then have "hour_counts df = []" by (simp add: hour_counts_def value_counts_Nil sort_index_def)
  with a show False by simp
qed

lemma bind_e_Inr: "bind_e m f = Inr y \<longleftrightarrow> (\<exists>x. m = Inr x \<and> f x = Inr y)"
  by (cases m) (simp_all add: bind_e_def)

lemma summary_Inr:
  assumes "summary df = Inr r"
  shows "idxmax (hour_counts df) = Inr (peak_hour r)"
    and "idxmin (hour_counts df) = Inr (lowest_hour r)"
    and "idxmax (day_counts df) = Inr (peak_day r)"
    and "idxmin (day_counts df) = Inr (safest_day r)"
    and "idxmax (period_counts df) = Inr (peak_period r)"
    and "most_common df = Inr (most_common_weather r)"
    and "officers_window (peak_hour r) = Inr (window r)"
    and "total r = len df"
    and "peak_hour_count r = smax (hour_counts df)"
    and "lowest_hour_count r = smin (hour_counts df)"
    and "peak_day_count r = smax (day_counts df)"
    and "safest_day_count r = smin (day_counts df)"
    and "peak_period_count r = smax (period_counts df)"
    and "peak_hour_pct r = percent (smax (hour_counts df)) (len df)"
    and "lowest_hour_pct r = percent (smin (hour_counts df)) (len df)"
    and "peak_day_pct r = percent (smax (day_counts df)) (len df)"
    and "safest_day_pct r = percent (smin (day_counts df)) (len df)"
    and "peak_period_pct r = percent (smax (period_counts df)) (len df)"
    and "weekday_accidents r = count_eq (col df ''Is_Weekend'') 0"
    and "weekend_accidents r = count_eq (col df ''Is_Weekend'') 1"
    and "weekday_pct r = percent (Some (count_eq (col df ''Is_Weekend'') 0)) (len df)"
    and "weekend_pct r = percent (Some (count_eq (col df ''Is_Weekend'') 1)) (len df)"
  using assms unfolding summary_def bind_e_Inr by auto

lemma window_int:
  "officers_window (CInt h) = Inr (show_int (h - 1) @ '':00-'' @ show_int (h + 2) @ '':00'')"
  by (simp add: officers_window_def bind_e_def)

lemma window_flt:
  "officers_window (CFlt x) = Inr (show_int \<lfloor>x - 1\<rfloor> @ ''.0:00-'' @ show_int \<lfloor>x + 2\<rfloor> @ ''.0:00'')"
  by (simp add: officers_window_def bind_e_def)

lemma show_minus_one: "show_int (- 1) = ''-1''" by (simp add: show_int_def digit_def)
lemma show_two: "show_int 2 = ''2''" by (simp add: show_int_def digit_def)
lemma show_22: "show_int 22 = ''22''" by (simp add: show_int_def digit_def)
lemma show_25: "show_int 25 = ''25''" by (simp add: show_int_def digit_def)

lemma ex_one_enriched: "preprocess ex_one = Inr (enriched ex_one)"
  by (rule preprocess_enriched) (simp add: ex_one_def)

lemma ex_late_enriched: "preprocess ex_late = Inr (enriched ex_late)"
  by (rule preprocess_enriched) (simp add: ex_late_def)

lemma peak_ex_one:
  "case summary (enriched ex_one) of Inr r \<Rightarrow> peak_hour r = CInt 0 | Inl e \<Rightarrow> False"
  by code_simp

lemma peak_ex_late:
  "case summary (enriched ex_late) of Inr r \<Rightarrow> peak_hour r = CInt 23 | Inl e \<Rightarrow> False"
  by code_simp

lemma set_dropna: "(k, v) \<in> set (dropna s) \<longleftrightarrow> (k, Some v) \<in> set s"
  by (induction s rule: dropna.induct) auto

lemma argbest_in: "argbest better b xs \<in> set (b # xs)"
  by (induction xs arbitrary: b) auto

lemma argbest_max: "y \<in> set (b # xs) \<Longrightarrow> snd y \<le> snd (argbest (\<lambda>a b. a > b) b xs)"
proof (induction xs arbitrary: b y)
  case Nil then show ?case by simp
next
  case (Cons x xs)
  let ?b = "if snd x > snd b then x else b"
  have b: "snd b \<le> snd ?b" "snd x \<le> snd ?b" by auto
  have "snd ?b \<le> snd (argbest (\<lambda>a b. a > b) ?b xs)" by (rule Cons.IH) simp
  moreover have "snd y \<le> snd (argbest (\<lambda>a b. a > b) ?b xs)" if "y \<in> set xs"
    using that by (intro Cons.IH) simp
  ultimately show ?case using Cons.prems b by (auto simp del: if_split split del: if_split simp: ) 
qed

lemma argbest_min: "y \<in> set (b # xs) \<Longrightarrow> snd (argbest (\<lambda>a b. a < b) b xs) \<le> snd y"
proof (induction xs arbitrary: b y)
  case Nil then show ?case by simp
next
  case (Cons x xs)
  let ?b = "if snd x < snd b then x else b"
  have b: "snd ?b \<le> snd b" "snd ?b \<le> snd x" by auto
  have "snd (argbest (\<lambda>a b. a < b) ?b xs) \<le> snd ?b" by (rule Cons.IH) simp
  moreover have "snd (argbest (\<lambda>a b. a < b) ?b xs) \<le> snd y" if "y \<in> set xs"
    using that by (intro Cons.IH) simp
  ultimately show ?case using Cons.prems b by (auto simp del: if_split split del: if_split)
qed

lemma foldl_max_argbest: "foldl max (snd b) (map snd xs) = snd (argbest (\<lambda>a b. a > b) b xs)"
proof (induction xs arbitrary: b)
  case Nil then show ?case by simp
next
  case (Cons x xs)
  have "max (snd b) (snd x) = snd (if snd x > snd b then x else b)" by (simp add: max_def)
  then show ?case using Cons.IH[of "if snd x > snd b then x else b"] by simp
qed

lemma foldl_min_argbest: "foldl min (snd b) (map snd xs) = snd (argbest (\<lambda>a b. a < b) b xs)"
proof (induction xs arbitrary: b)
  case Nil then show ?case by simp
next
  case (Cons x xs)
  have "min (snd b) (snd x) = snd (if snd x < snd b then x else b)" by (simp add: min_def)
  then show ?case using Cons.IH[of "if snd x < snd b then x else b"] by simp
qed

lemma idxmax_spec:
  assumes "idxmax s = Inr k"
  shows "\<exists>n. (k, Some n) \<in> set s \<and> smax s = Some n \<and> (\<forall>k' n'. (k', Some n') \<in> set s \<longrightarrow> n' \<le> n)"
proof (cases "dropna s")
  case Nil
  with assms show ?thesis by (simp add: idxmax_def)
next
  case (Cons b xs)
  let ?m = "argbest (\<lambda>a b. a > b) b xs"
  have k: "k = fst ?m" using assms Cons by (simp add: idxmax_def)
  have "?m \<in> set (dropna s)" unfolding Cons by (rule argbest_in)
  then have 1: "(k, Some (snd ?m)) \<in> set s" by (simp add: k flip: set_dropna)
  have 2: "smax s = Some (snd ?m)" by (simp add: smax_def Cons foldl_max_argbest)
  have 3: "n' \<le> snd ?m" if "(k', Some n') \<in> set s" for k' n'
  proof -
    from that have "(k', n') \<in> set (b # xs)" by (simp add: set_dropna flip: Cons)
    from argbest_max[OF this] show ?thesis by simp
  qed
  from 1 2 3 show ?thesis by blast
qed

lemma idxmin_spec:
  assumes "idxmin s = Inr k"
  shows "\<exists>n. (k, Some n) \<in> set s \<and> smin s = Some n \<and> (\<forall>k' n'. (k', Some n') \<in> set s \<longrightarrow> n \<le> n')"
proof (cases "dropna s")
  case Nil
  with assms show ?thesis by (simp add: idxmin_def)
next
  case (Cons b xs)
  let ?m = "argbest (\<lambda>a b. a < b) b xs"
  have k: "k = fst ?m" using assms Cons by (simp add: idxmin_def)
  have "?m \<in> set (dropna s)" unfolding Cons by (rule argbest_in)
  then have 1: "(k, Some (snd ?m)) \<in> set s" by (simp add: k flip: set_dropna)
  have 2: "smin s = Some (snd ?m)" by (simp add: smin_def Cons foldl_min_argbest)
  have 3: "snd ?m \<le> n'" if "(k', Some n') \<in> set s" for k' n'
  proof -
    from that have "(k', n') \<in> set (b # xs)" by (simp add: set_dropna flip: Cons)
    from argbest_min[OF this] show ?thesis by simp
  qed
  from 1 2 3 show ?thesis by blast
qed

text \<open>Entries of the three count series, in terms of the columns.\<close>

lemma in_set_distinct_map_of:
  "distinct (map fst s) \<Longrightarrow> (k, v) \<in> set s \<longleftrightarrow> map_of s k = Some v"
  by simp

lemma distinct_hour_counts: "distinct (map fst (hour_counts df))"
  by (simp add: hour_counts_def distinct_sort_index distinct_value_counts)

lemma hour_counts_entry:
  "(k, Some n) \<in> set (hour_counts df)
     \<longleftrightarrow> k \<noteq> NA \<and> k \<in> set (col df ''Hour'') \<and> n = occurrences (col df ''Hour'') k"
  unfolding in_set_distinct_map_of[OF distinct_hour_counts]
  by (auto simp: hour_counts_def map_of_sort_index distinct_value_counts map_of_value_counts)

lemma distinct_day_order: "distinct day_order" by (simp add: day_order_def)
lemma distinct_period_order: "distinct period_order" by (simp add: period_order_def)

lemma reindex_entry:
  assumes "distinct order"
  shows "(k, Some n) \<in> set (reindex (value_counts cs) order)
     \<longleftrightarrow> k \<in> set order \<and> k \<noteq> NA \<and> k \<in> set cs \<and> n = occurrences cs k"
proof -
  have d: "distinct (map fst (reindex (value_counts cs) order))"
    using assms by (simp add: map_fst_reindex)
  show ?thesis unfolding in_set_distinct_map_of[OF d]
    by (auto simp: map_of_reindex map_of_value_counts)
qed

lemmas day_counts_entry = reindex_entry[OF distinct_day_order, of _ _ "col df ''Day_of_Week''" for df, folded day_counts_def]
lemmas period_counts_entry = reindex_entry[OF distinct_period_order, of _ _ "col df ''Time_Period''" for df, folded period_counts_def]

text \<open>
  C10. No clamping and no wrapping: with an integer peak hour \<open>h\<close> the window of line 390 is
  \<open>h - 1\<close> and \<open>h + 2\<close> in decimal. But the peak hour is an integer only when every
  timestamp parsed: with one unparseable row beside a row at hour 0, \<open>dt.hour\<close> gives a
  float column, the peak hour is 0.0 and the window reads \<open>-1.0:00-2.0:00\<close>, not
  \<open>-1:00-2:00\<close>.
\<close>

theorem window_float_hours:
  "(case summary (enriched ex_nat) of
      Inr r \<Rightarrow> peak_hour r = CFlt 0 \<and> window r = ''-1.0:00-2.0:00''
    | Inl e \<Rightarrow> False)
   \<and> officers_window (CInt 0) = Inr ''-1:00-2:00''
   \<and> officers_window (CInt 23) = Inr ''22:00-25:00''"
  by code_simp

lemma window_integer_hours:
  assumes "summary df = Inr r" and "peak_hour r = CInt h"
  shows "window r = show_int (h - 1) @ '':00-'' @ show_int (h + 2) @ '':00''"
  using summary_Inr(7)[OF assms(1)] by (simp add: assms(2) window_int)

lemma day_values:
  assumes "preprocess df0 = Inr df" and "c \<in> set (col df ''Day_of_Week'')" and "c \<noteq> NA"
  shows "c \<in> set day_order"
proof -
  from assms(2) obtain x where "c = (case x of CTime t \<Rightarrow> CStr (day_name (ts_dayofweek t)) | _ \<Rightarrow> NA)"
    unfolding preprocess_cols(3)[OF assms(1)] dt_text_def by auto
  with assms(3) have "\<exists>t::timestamp. c = CStr (day_name (ts_dayofweek t))"
    by (cases x) auto
  then obtain t :: timestamp where "c = CStr (day_name (ts_dayofweek t))" ..
  then show ?thesis by (cases "ts_dayofweek t") (simp_all add: day_order_def)
qed

lemma gtp_label: "get_time_period c = Inr l \<Longrightarrow> CStr l \<in> set period_order"
  by (auto simp: get_time_period_def period_order_def split: if_splits)

lemma period_values:
  assumes "preprocess df0 = Inr df" and "c \<in> set (col df ''Time_Period'')"
  shows "c \<in> set period_order"
proof -
  from assms(2) obtain i where i: "i < length (hours_of df0)"
      "c = CStr (projr (get_time_period (hours_of df0 ! i)))"
    unfolding preprocess_cols(2)[OF assms(1)] by (auto simp: in_set_conv_nth)
  obtain l where "get_time_period (hours_of df0 ! i) = Inr l"
    using gtp_total[OF comparable_hours[OF i(1)]] by blast
  then show ?thesis using i(2) gtp_label by simp
qed

lemma most_frequent_hours:
  assumes "idxmax (hour_counts df) = Inr k"
  shows "\<exists>n. most_frequent (col df ''Hour'') k n \<and> smax (hour_counts df) = Some n"
proof -
  from idxmax_spec[OF assms] obtain n where n: "(k, Some n) \<in> set (hour_counts df)"
    "smax (hour_counts df) = Some n"
    "\<And>k' n'. (k', Some n') \<in> set (hour_counts df) \<Longrightarrow> n' \<le> n" by blast
  have "most_frequent (col df ''Hour'') k n"
    unfolding most_frequent_def using n(1) n(3) by (auto simp: hour_counts_entry)
  with n(2) show ?thesis by blast
qed

lemma least_frequent_hours:
  assumes "idxmin (hour_counts df) = Inr k"
  shows "\<exists>n. least_frequent (col df ''Hour'') k n \<and> smin (hour_counts df) = Some n"
proof -
  from idxmin_spec[OF assms] obtain n where n: "(k, Some n) \<in> set (hour_counts df)"
    "smin (hour_counts df) = Some n"
    "\<And>k' n'. (k', Some n') \<in> set (hour_counts df) \<Longrightarrow> n \<le> n'" by blast
  have "least_frequent (col df ''Hour'') k n"
    unfolding least_frequent_def using n(1) n(3) by (auto simp: hour_counts_entry)
  with n(2) show ?thesis by blast
qed

lemma most_frequent_reindex:
  assumes "idxmax (reindex (value_counts cs) order) = Inr k" and "distinct order"
    and "\<And>c. c \<in> set cs \<Longrightarrow> c \<noteq> NA \<Longrightarrow> c \<in> set order"
  shows "\<exists>n. most_frequent cs k n \<and> smax (reindex (value_counts cs) order) = Some n"
proof -
  let ?s = "reindex (value_counts cs) order"
  from idxmax_spec[OF assms(1)] obtain n where n: "(k, Some n) \<in> set ?s"
    "smax ?s = Some n" "\<And>k' n'. (k', Some n') \<in> set ?s \<Longrightarrow> n' \<le> n" by blast
  have "most_frequent cs k n"
    unfolding most_frequent_def using n(1) n(3) assms(3)
    by (auto simp: reindex_entry[OF assms(2)])
  with n(2) show ?thesis by blast
qed

lemma least_frequent_reindex:
  assumes "idxmin (reindex (value_counts cs) order) = Inr k" and "distinct order"
    and "\<And>c. c \<in> set cs \<Longrightarrow> c \<noteq> NA \<Longrightarrow> c \<in> set order"
  shows "\<exists>n. least_frequent cs k n \<and> smin (reindex (value_counts cs) order) = Some n"
proof -
  let ?s = "reindex (value_counts cs) order"
  from idxmin_spec[OF assms(1)] obtain n where n: "(k, Some n) \<in> set ?s"
    "smin ?s = Some n" "\<And>k' n'. (k', Some n') \<in> set ?s \<Longrightarrow> n \<le> n'" by blast
  have "least_frequent cs k n"
    unfolding least_frequent_def using n(1) n(3) assms(3)
    by (auto simp: reindex_entry[OF assms(2)])
  with n(2) show ?thesis by blast
qed

lemma chain_None:
  "chain ss = (ev, None) \<Longrightarrow> (\<forall>s\<in>set ss. snd s = None) \<and> ev = concat (map fst ss)"
proof (induction ss arbitrary: ev rule: chain.induct)
  case 1 then show ?case by simp
next
  case (2 ev' e rest) then show ?case by simp
next
  case (3 ev' rest)
  obtain a b where c: "chain rest = (a, b)" by (cases "chain rest")
  with 3 show ?case by auto
qed

lemma step3_None:
  "snd (step3 df) = None \<Longrightarrow> fst (step3 df) = [Banner 3, Saved ''time_pattern_analysis.png'']"
  by (auto simp: step3_def split: sum.splits)

lemma step4_None:
  "snd (step4 df) = None \<Longrightarrow>
   fst (step4 df) = guarded 4 (has df ''Weather_Condition'') ''weather_analysis.png''"
  by (auto simp: step4_def guarded_def has_def split: sum.splits)

lemma step5_None: "fst (step5 df) = guarded 5 (has df ''Severity'') ''severity_analysis.png''"
  by (simp add: step5_def guarded_def has_def)

lemma step6_None:
  "fst (step6 df) = guarded 6 (has df ''Start_Lat'' \<and> has df ''Start_Lng'') ''geographic_hotspots.png''"
  by (simp add: step6_def guarded_def has_def)

lemma step7_None:
  "fst (step7 df) = guarded 7 (2 \<le> length (available_env df)) ''environmental_factors.png''"
  by (simp add: step7_def guarded_def)

lemma step8_None:
  "snd (step8 df) = None \<Longrightarrow>
   fst (step8 df) = guarded 8 (2 \<le> length (available_numeric df)) ''correlation_matrix.png''"
  by (auto simp: step8_def guarded_def correlation_columns_def split: if_splits)

lemma has_preprocess:
  assumes "preprocess df0 = Inr df"
    and "c \<notin> {''Hour'', ''Day_of_Week'', ''Month'', ''Month_Name'', ''Year'', ''Is_Weekend'', ''Time_Period''}"
  shows "has df c = has df0 c"
  using assms(2) unfolding has_def preprocess_columns[OF assms(1)] by blast

lemma run_Completed:
  assumes "load world = Loaded f df0" and "outcome (run world) = Completed r"
  shows "\<exists>df ev. preprocess df0 = Inr df
           \<and> chain [step3 df, step4 df, step5 df, step6 df, step7 df, step8 df] = (ev, None)
           \<and> summary df = Inr r
           \<and> trace (run world) = [Banner 1, Banner 2, Derived] @ ev @ [Banner 9, Saved ''analysis_summary.txt'']"
  using assms by (auto simp: run_def analyse_def split: sum.splits prod.splits option.splits)

lemma completed_trace:
  assumes "load world = Loaded f df0" and "outcome (run world) = Completed r"
  shows "trace (run world) =
     [Banner 1, Banner 2, Derived, Banner 3, Saved ''time_pattern_analysis.png'']
     @ guarded 4 (has df0 ''Weather_Condition'') ''weather_analysis.png''
     @ guarded 5 (has df0 ''Severity'') ''severity_analysis.png''
     @ guarded 6 (has df0 ''Start_Lat'' \<and> has df0 ''Start_Lng'') ''geographic_hotspots.png''
     @ guarded 7 (2 \<le> length (available_env df0)) ''environmental_factors.png''
     @ guarded 8 (2 \<le> length (available_numeric df0)) ''correlation_matrix.png''
     @ [Banner 9, Saved ''analysis_summary.txt'']"
proof -
  from run_Completed[OF assms] obtain df ev where p: "preprocess df0 = Inr df"
    and c: "chain [step3 df, step4 df, step5 df, step6 df, step7 df, step8 df] = (ev, None)"
    and t: "trace (run world) = [Banner 1, Banner 2, Derived] @ ev @ [Banner 9, Saved ''analysis_summary.txt'']"
    by blast
  from chain_None[OF c] have n: "snd (step3 df) = None" "snd (step4 df) = None"
      "snd (step8 df) = None"
    and ev: "ev = fst (step3 df) @ fst (step4 df) @ fst (step5 df) @ fst (step6 df)
                  @ fst (step7 df) @ fst (step8 df)"
    by simp_all
  have h: "has df ''Weather_Condition'' = has df0 ''Weather_Condition''"
    "has df ''Severity'' = has df0 ''Severity''"
    "has df ''Start_Lat'' = has df0 ''Start_Lat''"
    "has df ''Start_Lng'' = has df0 ''Start_Lng''"
    by (simp_all add: has_preprocess[OF p])
  show ?thesis
    unfolding t ev step3_None[OF n(1)] step4_None[OF n(2)] step5_None step6_None step7_None
      step8_None[OF n(3)] h available_env_preprocess[OF p] available_numeric_preprocess[OF p]
    by simp
qed

lemma saved_append: "saved (a @ b) = saved a @ saved b"
  by (induction a rule: saved.induct) simp_all

lemma saved_guarded: "saved (guarded k g f) = (if g then [f] else [])"
  by (simp add: guarded_def)

lemma png: "endswith ''time_pattern_analysis.png'' ''.png''" "endswith ''weather_analysis.png'' ''.png''"
  "endswith ''severity_analysis.png'' ''.png''" "endswith ''geographic_hotspots.png'' ''.png''"
  "endswith ''environmental_factors.png'' ''.png''" "endswith ''correlation_matrix.png'' ''.png''"
  "\<not> endswith ''analysis_summary.txt'' ''.png''"
  by (simp_all add: endswith_def)

text \<open>
  C6 (as amended). A run on a loaded table that completes writes the chart of the time
  patterns and, for each of Steps 4 to 8, the chart of that step exactly when its guard
  holds: the weather column exists; the severity column exists; both coordinate columns
  exist; at least two environmental columns exist; at least two of Severity and the
  environmental columns exist. So it writes the six chart files when all these columns
  exist.
\<close>

theorem charts_follow_guards:
  assumes "load world = Loaded f df0" and "outcome (run world) = Completed r"
  shows "charts (trace (run world)) =
       [''time_pattern_analysis.png'']
       @ (if has df0 ''Weather_Condition'' then [''weather_analysis.png''] else [])
       @ (if has df0 ''Severity'' then [''severity_analysis.png''] else [])
       @ (if has df0 ''Start_Lat'' \<and> has df0 ''Start_Lng'' then [''geographic_hotspots.png''] else [])
       @ (if 2 \<le> length (available_env df0) then [''environmental_factors.png''] else [])
       @ (if 2 \<le> length (available_numeric df0) then [''correlation_matrix.png''] else [])
     \<and> (has df0 ''Weather_Condition'' \<and> has df0 ''Severity'' \<and> has df0 ''Start_Lat''
          \<and> has df0 ''Start_Lng'' \<and> 2 \<le> length (available_env df0) \<longrightarrow>
        charts (trace (run world)) =
          [''time_pattern_analysis.png'', ''weather_analysis.png'', ''severity_analysis.png'',
           ''geographic_hotspots.png'', ''environmental_factors.png'', ''correlation_matrix.png''])"
proof -
  have l: "length (available_env df0) \<le> length (available_numeric df0)"
    by (simp add: available_env_def available_numeric_def env_cols_def numeric_cols_def)
  have c: "charts (trace (run world)) =
       [''time_pattern_analysis.png'']
       @ (if has df0 ''Weather_Condition'' then [''weather_analysis.png''] else [])
       @ (if has df0 ''Severity'' then [''severity_analysis.png''] else [])
       @ (if has df0 ''Start_Lat'' \<and> has df0 ''Start_Lng'' then [''geographic_hotspots.png''] else [])
       @ (if 2 \<le> length (available_env df0) then [''environmental_factors.png''] else [])
       @ (if 2 \<le> length (available_numeric df0) then [''correlation_matrix.png''] else [])"
    unfolding completed_trace[OF assms] charts_def saved_append saved_guarded
    by (simp add: png)
  show ?thesis
  proof (intro conjI impI)
    show "charts (trace (run world)) =
       [''time_pattern_analysis.png'']
       @ (if has df0 ''Weather_Condition'' then [''weather_analysis.png''] else [])
       @ (if has df0 ''Severity'' then [''severity_analysis.png''] else [])
       @ (if has df0 ''Start_Lat'' \<and> has df0 ''Start_Lng'' then [''geographic_hotspots.png''] else [])
       @ (if 2 \<le> length (available_env df0) then [''environmental_factors.png''] else [])
       @ (if 2 \<le> length (available_numeric df0) then [''correlation_matrix.png''] else [])"
      by (rule c)
  next
    assume a: "has df0 ''Weather_Condition'' \<and> has df0 ''Severity'' \<and> has df0 ''Start_Lat''
          \<and> has df0 ''Start_Lng'' \<and> 2 \<le> length (available_env df0)"
    then have "2 \<le> length (available_numeric df0)" using l by linarith
    with a show "charts (trace (run world)) =
          [''time_pattern_analysis.png'', ''weather_analysis.png'', ''severity_analysis.png'',
           ''geographic_hotspots.png'', ''environmental_factors.png'', ''correlation_matrix.png'']"
      unfolding c by simp
  qed
qed

lemma load_world_of: "load (world_of t) = Loaded ''US_Accidents.csv'' (read_csv t 50000)"
  by (simp add: load_def world_of_def endswith_def)

lemma read_csv_ex: "read_csv ex_full 50000 = ex_full" "read_csv ex_one 50000 = ex_one"
  "read_csv ex_notime 50000 = ex_notime" "read_csv ex_nosev 50000 = ex_nosev"
  by (simp_all add: read_csv_def ex_full_def ex_one_def ex_notime_def ex_nosev_def)

lemma run_world_of: "run (world_of t) = analyse (read_csv t 50000)"
  by (simp add: run_def load_world_of)

lemma analyse_ex_full: "case outcome (analyse ex_full) of Completed r \<Rightarrow> True | _ \<Rightarrow> False"
  by code_simp

lemma analyse_ex_one: "case outcome (analyse ex_one) of Completed r \<Rightarrow> True | _ \<Rightarrow> False"
  by code_simp

lemma analyse_ex_notime:
  "analyse ex_notime = \<lparr> trace = [Banner 1, Banner 2], outcome = Raised (KeyError ''Start_Time'') \<rparr>"
  by code_simp

lemma analyse_ex_nosev:
  "analyse ex_nosev = \<lparr> trace = [Banner 1, Banner 2, Derived, Banner 3],
                          outcome = Raised (KeyError ''Severity'') \<rparr>"
  by code_simp

lemma guards_ex_full: "has ex_full ''Weather_Condition''" "has ex_full ''Severity''"
  "has ex_full ''Start_Lat''" "has ex_full ''Start_Lng''" "2 \<le> length (available_env ex_full)"
  by (simp_all add: has_def ex_full_def available_env_def env_cols_def)

lemma guards_ex_one: "\<not> has ex_one ''Weather_Condition''" "has ex_one ''Severity''"
  "\<not> has ex_one ''Start_Lat''" "\<not> has ex_one ''Start_Lng''" "length (available_env ex_one) = 0"
  "length (available_numeric ex_one) = 1"
  by (simp_all add: has_def ex_one_def available_env_def env_cols_def available_numeric_def numeric_cols_def)

theorem charts_follow_guards_witness:
  "charts (trace (run (world_of ex_full))) =
     [''time_pattern_analysis.png'', ''weather_analysis.png'', ''severity_analysis.png'',
      ''geographic_hotspots.png'', ''environmental_factors.png'', ''correlation_matrix.png'']"
proof -
  have l: "load (world_of ex_full) = Loaded ''US_Accidents.csv'' ex_full"
    by (simp add: load_world_of read_csv_ex)
  obtain r where r: "outcome (run (world_of ex_full)) = Completed r"
    using analyse_ex_full by (cases "outcome (analyse ex_full)") (auto simp: run_world_of read_csv_ex)
  from charts_follow_guards[OF l r] guards_ex_full show ?thesis by blast
qed

text \<open>
  The claim as stated fails on a table with the columns Start_Time and Severity only: the
  run completes and writes two chart files.
\<close>

theorem two_charts_counterexample:
  "load (world_of ex_one) = Loaded ''US_Accidents.csv'' ex_one
   \<and> (case outcome (run (world_of ex_one)) of Completed r \<Rightarrow> True | _ \<Rightarrow> False)
   \<and> charts (trace (run (world_of ex_one))) = [''time_pattern_analysis.png'', ''severity_analysis.png'']"
proof -
  have l: "load (world_of ex_one) = Loaded ''US_Accidents.csv'' ex_one"
    by (simp add: load_world_of read_csv_ex)
  have o: "case outcome (run (world_of ex_one)) of Completed r \<Rightarrow> True | _ \<Rightarrow> False"
    using analyse_ex_one by (simp add: run_world_of read_csv_ex)
  then obtain r where r: "outcome (run (world_of ex_one)) = Completed r"
    by (cases "outcome (run (world_of ex_one))") auto
  have "charts (trace (run (world_of ex_one))) = [''time_pattern_analysis.png'', ''severity_analysis.png'']"
    unfolding completed_trace[OF l r] charts_def saved_append saved_guarded
    by (simp add: guards_ex_one png)
  with l o show ?thesis by simp
qed

lemma load_Exit:
  "load world = Exit \<longleftrightarrow>
     (world = None \<or> (\<exists>z. world = Some z \<and> (\<forall>f\<in>set (namelist z). \<not> endswith f ''.csv'')))"
proof (cases world)
  case None
  then show ?thesis by (simp add: load_def)
next
  case (Some z)
  have "load (Some z) = Exit \<longleftrightarrow> filter (\<lambda>f. endswith f ''.csv'') (namelist z) = []"
    by (simp add: load_def Let_def split: list.splits)
  then show ?thesis using Some by (simp add: filter_empty_conv)
qed

text \<open>
  C7 (as amended). Without an archive, or with an archive that lists no CSV entry, the run
  ends in Step 1: nothing is derived and no file is written. A loaded table without the
  Start_Time column ends the run in Step 2 with the KeyError of the column lookup. In every
  run that completes, Steps 1, 2, 3 and 9 run, and each of Steps 4 to 8 prints its banner
  and then enters its body and saves its chart exactly when its guard holds.
\<close>

theorem skipped_steps_follow_guards:
  "(world = None \<or> (\<exists>z. world = Some z \<and> (\<forall>f\<in>set (namelist z). \<not> endswith f ''.csv''))
      \<longrightarrow> run world = \<lparr> trace = [Banner 1], outcome = Exited \<rparr>)
   \<and> (\<forall>f df0. load world = Loaded f df0 \<and> \<not> has df0 ''Start_Time''
      \<longrightarrow> run world = \<lparr> trace = [Banner 1, Banner 2], outcome = Raised (KeyError ''Start_Time'') \<rparr>)
   \<and> (\<forall>f df0 r. load world = Loaded f df0 \<and> outcome (run world) = Completed r
      \<longrightarrow> trace (run world) =
           [Banner 1, Banner 2, Derived, Banner 3, Saved ''time_pattern_analysis.png'']
           @ guarded 4 (has df0 ''Weather_Condition'') ''weather_analysis.png''
           @ guarded 5 (has df0 ''Severity'') ''severity_analysis.png''
           @ guarded 6 (has df0 ''Start_Lat'' \<and> has df0 ''Start_Lng'') ''geographic_hotspots.png''
           @ guarded 7 (2 \<le> length (available_env df0)) ''environmental_factors.png''
           @ guarded 8 (2 \<le> length (available_numeric df0)) ''correlation_matrix.png''
           @ [Banner 9, Saved ''analysis_summary.txt''])"
proof (intro conjI allI impI)
  assume "world = None \<or> (\<exists>z. world = Some z \<and> (\<forall>f\<in>set (namelist z). \<not> endswith f ''.csv''))"
  then have "load world = Exit" by (simp only: load_Exit)
  then show "run world = \<lparr> trace = [Banner 1], outcome = Exited \<rparr>" by (simp add: run_def)
next
  fix f df0 assume a: "load world = Loaded f df0 \<and> \<not> has df0 ''Start_Time''"
  then have "preprocess df0 = Inl (KeyError ''Start_Time'')"
    by (simp add: preprocess_KeyError has_def)
  with a show "run world = \<lparr> trace = [Banner 1, Banner 2], outcome = Raised (KeyError ''Start_Time'') \<rparr>"
    by (simp add: run_def analyse_def)
next
  fix f df0 r assume "load world = Loaded f df0 \<and> outcome (run world) = Completed r"
  then show "trace (run world) =
           [Banner 1, Banner 2, Derived, Banner 3, Saved ''time_pattern_analysis.png'']
           @ guarded 4 (has df0 ''Weather_Condition'') ''weather_analysis.png''
           @ guarded 5 (has df0 ''Severity'') ''severity_analysis.png''
           @ guarded 6 (has df0 ''Start_Lat'' \<and> has df0 ''Start_Lng'') ''geographic_hotspots.png''
           @ guarded 7 (2 \<le> length (available_env df0)) ''environmental_factors.png''
           @ guarded 8 (2 \<le> length (available_numeric df0)) ''correlation_matrix.png''
           @ [Banner 9, Saved ''analysis_summary.txt'']"
    using completed_trace by blast
qed

theorem skipped_steps_follow_guards_witness:
  "run None = \<lparr> trace = [Banner 1], outcome = Exited \<rparr>
   \<and> trace (run (world_of ex_one)) =
       [Banner 1, Banner 2, Derived, Banner 3, Saved ''time_pattern_analysis.png'', Banner 4,
        Banner 5, Entered 5, Saved ''severity_analysis.png'', Banner 6, Banner 7, Banner 8,
        Banner 9, Saved ''analysis_summary.txt'']"
proof -
  have 1: "run None = \<lparr> trace = [Banner 1], outcome = Exited \<rparr>"
    using skipped_steps_follow_guards[of None] by simp
  have l: "load (world_of ex_one) = Loaded ''US_Accidents.csv'' ex_one"
    by (simp add: load_world_of read_csv_ex)
  obtain r where r: "outcome (run (world_of ex_one)) = Completed r"
    using analyse_ex_one by (cases "outcome (analyse ex_one)") (auto simp: run_world_of read_csv_ex)
  from skipped_steps_follow_guards[of "world_of ex_one"] l r
  have "trace (run (world_of ex_one)) =
           [Banner 1, Banner 2, Derived, Banner 3, Saved ''time_pattern_analysis.png'']
           @ guarded 4 (has ex_one ''Weather_Condition'') ''weather_analysis.png''
           @ guarded 5 (has ex_one ''Severity'') ''severity_analysis.png''
           @ guarded 6 (has ex_one ''Start_Lat'' \<and> has ex_one ''Start_Lng'') ''geographic_hotspots.png''
           @ guarded 7 (2 \<le> length (available_env ex_one)) ''environmental_factors.png''
           @ guarded 8 (2 \<le> length (available_numeric ex_one)) ''correlation_matrix.png''
           @ [Banner 9, Saved ''analysis_summary.txt'']"
    by blast
  then have 2: "trace (run (world_of ex_one)) =
       [Banner 1, Banner 2, Derived, Banner 3, Saved ''time_pattern_analysis.png'', Banner 4,
        Banner 5, Entered 5, Saved ''severity_analysis.png'', Banner 6, Banner 7, Banner 8,
        Banner 9, Saved ''analysis_summary.txt'']"
    by (simp add: guards_ex_one guarded_def)
  from 1 2 show ?thesis by simp
qed

text \<open>
  The claim as stated fails on a table with the columns Severity and Weather_Condition and
  no Start_Time: the columns Steps 4 and 5 require exist, yet the run ends in Step 2 and
  neither step runs.
\<close>

theorem missing_timestamp_counterexample:
  "load (world_of ex_notime) = Loaded ''US_Accidents.csv'' ex_notime
   \<and> has ex_notime ''Weather_Condition'' \<and> has ex_notime ''Severity''
   \<and> run (world_of ex_notime)
       = \<lparr> trace = [Banner 1, Banner 2], outcome = Raised (KeyError ''Start_Time'') \<rparr>"
  using analyse_ex_notime
  by (simp add: load_world_of run_world_of read_csv_ex) (simp add: has_def ex_notime_def)

text \<open>
  A table without the Severity column does not reach the guards of Steps 4 and 5: the pivot
  table of Step 3 (line 159) looks the column up without a guard.
\<close>

lemma missing_severity_raises:
  "run (world_of ex_nosev)
     = \<lparr> trace = [Banner 1, Banner 2, Derived, Banner 3], outcome = Raised (KeyError ''Severity'') \<rparr>"
  using analyse_ex_nosev by (simp add: run_world_of read_csv_ex)

lemma percent_sum:
  assumes "a + b = n" and "0 < n"
  shows "of_nat a / of_nat n * 100 + of_nat b / of_nat n * 100 = (100::rat)"
proof -
  have "of_nat a / of_nat n * 100 + of_nat b / of_nat n * 100
          = (of_nat a + of_nat b) / of_nat n * (100::rat)"
    by (simp add: add_divide_distrib distrib_right)
  also have "of_nat a + of_nat b = (of_nat n :: rat)" using assms(1) by (simp flip: of_nat_add)
  finally show ?thesis using assms(2) by simp
qed

text \<open>
  C9 (as amended). In every row of the table after Step 2, Is_Weekend is 0 or 1, and it is 1
  exactly when the timestamp of the row parsed and falls on a Saturday or a Sunday; a row
  whose timestamp did not parse gets 0. In every report, the weekday and weekend counts add
  up to the number of loaded rows, and the exact ratios of the two counts to that number,
  times 100, add up to 100; the reported percentages are the double-precision values of
  these ratios.
\<close>

theorem is_weekend_partition:
  assumes "preprocess df0 = Inr df"
  shows "(\<forall>i < len df.
            (col df ''Is_Weekend'' ! i = CInt 0 \<or> col df ''Is_Weekend'' ! i = CInt 1)
          \<and> (col df ''Is_Weekend'' ! i = CInt 1
               \<longleftrightarrow> on_weekend (to_datetime (col df0 ''Start_Time'') ! i))
          \<and> (to_datetime (col df0 ''Start_Time'') ! i = NA
               \<longrightarrow> col df ''Is_Weekend'' ! i = CInt 0))
       \<and> (\<forall>r. summary df = Inr r \<longrightarrow>
            weekday_accidents r + weekend_accidents r = total r \<and> total r = len df
            \<and> weekday_pct r = Some (pct_of (weekday_accidents r) (total r))
            \<and> weekend_pct r = Some (pct_of (weekend_accidents r) (total r))
            \<and> of_nat (weekday_accidents r) / of_nat (total r) * 100
                + of_nat (weekend_accidents r) / of_nat (total r) * 100 = (100::rat))"
proof (intro conjI allI impI)
  fix i assume i: "i < len df"
  then have n: "i < length (to_datetime (col df0 ''Start_Time''))"
    by (simp add: len_def preprocess_cols(5)[OF assms] frame)
  have c: "col df ''Is_Weekend'' ! i
            = CInt (if on_weekend (to_datetime (col df0 ''Start_Time'') ! i) then 1 else 0)"
    using n by (simp add: is_weekend_col[OF assms])
  show "col df ''Is_Weekend'' ! i = CInt 0 \<or> col df ''Is_Weekend'' ! i = CInt 1"
    by (simp add: c)
  show "col df ''Is_Weekend'' ! i = CInt 1
               \<longleftrightarrow> on_weekend (to_datetime (col df0 ''Start_Time'') ! i)"
    by (simp add: c)
  show "col df ''Is_Weekend'' ! i = CInt 0" if "to_datetime (col df0 ''Start_Time'') ! i = NA"
    using that by (simp add: c on_weekend_def)
next
  fix r assume r: "summary df = Inr r"
  note s = summary_Inr[OF r]
  have l: "length (to_datetime (col df0 ''Start_Time'')) = len df"
    by (simp add: len_def preprocess_cols(5)[OF assms] frame)
  have c: "count_eq (col df ''Is_Weekend'') 0 + count_eq (col df ''Is_Weekend'') 1 = len df"
    unfolding is_weekend_col[OF assms] count_eq_flags l ..
  show t: "weekday_accidents r + weekend_accidents r = total r"
    using c by (simp add: s(8,19,20))
  show "total r = len df" by (rule s(8))
  have p: "0 < total r"
    unfolding s(8) using idxmax_nonempty[OF s(1)] by (rule hour_counts_nonempty)
  show "weekday_pct r = Some (pct_of (weekday_accidents r) (total r))"
    by (simp add: s(8,19,21) percent_def)
  show "weekend_pct r = Some (pct_of (weekend_accidents r) (total r))"
    by (simp add: s(8,20,22) percent_def)
  show "of_nat (weekday_accidents r) / of_nat (total r) * 100
          + of_nat (weekend_accidents r) / of_nat (total r) * 100 = (100::rat)"
    by (rule percent_sum[OF t p])
qed

lemma ex_week_enriched: "preprocess ex_week = Inr (enriched ex_week)"
  by (rule preprocess_enriched) (simp add: ex_week_def)

lemma st_ex_week: "to_datetime (col ex_week ''Start_Time'') = [stamp Saturday 8, stamp Monday 23, NA]"
  by (simp add: ex_week_def col_def mk_row_def to_datetime_def stamp_def)

lemma summary_ex_week:
  "case summary (enriched ex_week) of
     Inr r \<Rightarrow> weekday_accidents r = 2 \<and> weekend_accidents r = 1
   | Inl e \<Rightarrow> False"
  by code_simp

theorem is_weekend_partition_witness:
  "col (enriched ex_week) ''Is_Weekend'' ! 0 = CInt 1
   \<and> col (enriched ex_week) ''Is_Weekend'' ! 2 = CInt 0
   \<and> (\<exists>r. summary (enriched ex_week) = Inr r
        \<and> weekday_accidents r = 2 \<and> weekend_accidents r = 1 \<and> total r = 3
        \<and> weekday_pct r = Some (pct_of 2 3) \<and> weekend_pct r = Some (pct_of 1 3))"
proof -
  note t = is_weekend_partition[OF ex_week_enriched]
  have n: "len (enriched ex_week) = 3"
    using preprocess_cols(5)[OF ex_week_enriched] by (simp add: len_def ex_week_def)
  have 1: "col (enriched ex_week) ''Is_Weekend'' ! 0 = CInt 1"
    using t n by (simp add: st_ex_week on_weekend_def stamp_def)
  have 2: "col (enriched ex_week) ''Is_Weekend'' ! 2 = CInt 0"
    using t n by (simp add: st_ex_week)
  obtain r where r: "summary (enriched ex_week) = Inr r"
    and v: "weekday_accidents r = 2" "weekend_accidents r = 1"
    using summary_ex_week by (cases "summary (enriched ex_week)") auto
  from t r have 3: "weekday_accidents r + weekend_accidents r = total r"
    "weekday_pct r = Some (pct_of (weekday_accidents r) (total r))"
    "weekend_pct r = Some (pct_of (weekend_accidents r) (total r))"
    by blast+
  from 3 v have "total r = 3" "weekday_pct r = Some (pct_of 2 3)" "weekend_pct r = Some (pct_of 1 3)"
    by auto
  with 1 2 r v show ?thesis by blast
qed

text \<open>
  The claim as stated fails on a table of 80 rows with 23 of them on a Saturday: the report
  prints 28.7 for the weekend and 71.2 for the weekdays, which add up to 99.9. In double
  precision 23 / 80 * 100 is just below 28.75, and 57 / 80 * 100 is the tie 71.25, printed
  to the even side.
\<close>

theorem percentages_counterexample:
  "case summary (enriched ex_80) of
      Inr r \<Rightarrow> weekend_accidents r = 23 \<and> weekday_accidents r = 57 \<and> total r = 80
        \<and> map_option fmt1 (weekend_pct r) = Some 287
        \<and> map_option fmt1 (weekday_pct r) = Some 712
    | Inl e \<Rightarrow> False"
  by code_simp

subsection \<open>Rounding to double precision\<close>

lemma scaled_ratio:
  assumes "0 < b" and "scaled a b e = (n, d)"
  shows "0 < d" and "rat_of_int n / rat_of_int d = rat_of_int a / rat_of_int b * 2 powi (- e)"
proof -
  show "0 < d" using assms by (auto simp: scaled_def split: if_splits)
  show "rat_of_int n / rat_of_int d = rat_of_int a / rat_of_int b * 2 powi (- e)"
  proof (cases "0 \<le> e")
    case True
    then have "n = a" "d = b * 2 ^ nat e" using assms(2) by (auto simp: scaled_def)
    moreover have "(2::rat) powi (- e) = 1 / 2 ^ nat e"
      using True by (simp add: power_int_def field_simps)
    ultimately show ?thesis by simp
  next
    case False
    then have "n = a * 2 ^ nat (- e)" "d = b" using assms(2) by (auto simp: scaled_def)
    moreover have "(2::rat) powi (- e) = 2 ^ nat (- e)"
      using False by (simp add: power_int_def)
    ultimately show ?thesis by simp
  qed
qed

lemma bitlen_powi:
  assumes "0 < a"
  shows "2 powi (bitlen a - 1) \<le> rat_of_int a" and "rat_of_int a < 2 powi (bitlen a)"
proof -
  from bitlen_bounds[OF assms] have 1: "2 ^ nat (bitlen a - 1) \<le> a" and 2: "a < 2 ^ nat (bitlen a)"
    by simp_all
  have p: "1 \<le> bitlen a" using assms bitlen_eq_zero_iff[of a] bitlen_nonneg[of a] by linarith
  have "(2::rat) powi (bitlen a - 1) = 2 ^ nat (bitlen a - 1)"
    using p by (simp add: power_int_def)
  moreover have "rat_of_int (2 ^ nat (bitlen a - 1)) \<le> rat_of_int a" using 1 by linarith
  ultimately show "2 powi (bitlen a - 1) \<le> rat_of_int a" by simp
  have "(2::rat) powi (bitlen a) = 2 ^ nat (bitlen a)"
    using p by (simp add: power_int_def)
  moreover have "rat_of_int a < rat_of_int (2 ^ nat (bitlen a))" using 2 by linarith
  ultimately show "rat_of_int a < 2 powi (bitlen a)" by simp
qed

lemma powi_combine: "(2::rat) powi x / 2 powi y * 2 powi z = 2 powi (x - y + z)"
  by (simp add: power_int_diff power_int_add)

lemma ratio_bounds:
  assumes "0 < a" and "0 < b"
  shows "2 powi 52 < rat_of_int a / rat_of_int b * 2 powi (- (bitlen a - bitlen b - 53))"
    and "rat_of_int a / rat_of_int b * 2 powi (- (bitlen a - bitlen b - 53)) < 2 powi 54"
proof -
  let ?la = "bitlen a" and ?lb = "bitlen b"
  note A = bitlen_powi[OF assms(1)] and B = bitlen_powi[OF assms(2)]
  have bpos: "0 < rat_of_int b" using assms(2) by simp
  have p: "(0::rat) < 2 powi k" for k by simp
  have lo: "2 powi (?la - 1) / 2 powi ?lb < rat_of_int a / rat_of_int b"
  proof -
    have "2 powi (?la - 1) / 2 powi ?lb \<le> rat_of_int a / 2 powi ?lb"
      using A(1) by (simp add: divide_right_mono)
    also have "\<dots> < rat_of_int a / rat_of_int b"
      using B(2) bpos assms(1) by (simp add: divide_strict_left_mono)
    finally show ?thesis .
  qed
  have hi: "rat_of_int a / rat_of_int b < 2 powi ?la / 2 powi (?lb - 1)"
  proof -
    have "rat_of_int a / rat_of_int b < 2 powi ?la / rat_of_int b"
      using A(2) bpos by (simp add: divide_strict_right_mono)
    also have "\<dots> \<le> 2 powi ?la / 2 powi (?lb - 1)"
      using B(1) bpos by (simp add: divide_left_mono)
    finally show ?thesis .
  qed
  have e1: "2 powi (?la - 1) / 2 powi ?lb * 2 powi (- (?la - ?lb - 53)) = (2::rat) powi 52"
    unfolding powi_combine by (rule arg_cong[of _ _ "\<lambda>k. 2 powi k"]) simp
  have e2: "2 powi ?la / 2 powi (?lb - 1) * 2 powi (- (?la - ?lb - 53)) = (2::rat) powi 54"
    unfolding powi_combine by (rule arg_cong[of _ _ "\<lambda>k. 2 powi k"]) simp
  show "2 powi 52 < rat_of_int a / rat_of_int b * 2 powi (- (?la - ?lb - 53))"
    using mult_strict_right_mono[OF lo p[of "- (?la - ?lb - 53)"]] unfolding e1 .
  show "rat_of_int a / rat_of_int b * 2 powi (- (?la - ?lb - 53)) < 2 powi 54"
    using mult_strict_right_mono[OF hi p[of "- (?la - ?lb - 53)"]] unfolding e2 .
qed

lemma powi_half: "(2::rat) powi (- e - 1) = 2 powi (- e) / 2"
proof -
  have "(2::rat) powi (- e - 1) = 2 powi (- e) / 2 powi 1"
    by (rule power_int_diff) simp
  then show ?thesis by simp
qed

lemma binade_range:
  assumes "0 < a" and "0 < b" and "scaled a b (binade a b) = (n, d)"
  shows "0 < d"
    and "rat_of_int n / rat_of_int d = rat_of_int a / rat_of_int b * 2 powi (- binade a b)"
    and "2 ^ 52 \<le> rat_of_int n / rat_of_int d" and "rat_of_int n / rat_of_int d < 2 ^ 53"
proof -
  define e0 where "e0 = bitlen a - bitlen b - 53"
  obtain n0 d0 where s0: "scaled a b e0 = (n0, d0)" by (cases "scaled a b e0")
  note r0 = scaled_ratio[OF assms(2) s0]
  define r where "r = rat_of_int a / rat_of_int b * 2 powi (- e0)"
  have rb: "2 ^ 52 < r" "r < 2 ^ 54"
    using ratio_bounds[OF assms(1,2)] by (simp_all add: r_def e0_def)
  have c: "(2 ^ 53 * d0 \<le> n0) \<longleftrightarrow> 2 ^ 53 \<le> r"
  proof -
    have "(2 ^ 53 \<le> rat_of_int n0 / rat_of_int d0) \<longleftrightarrow> (2 ^ 53 * rat_of_int d0 \<le> rat_of_int n0)"
      using r0(1) by (simp add: pos_le_divide_eq)
    also have "\<dots> \<longleftrightarrow> (rat_of_int (2 ^ 53 * d0) \<le> rat_of_int n0)" by simp
    also have "\<dots> \<longleftrightarrow> 2 ^ 53 * d0 \<le> n0" by (simp only: of_int_le_iff)
    finally show ?thesis by (simp add: r0(2) r_def)
  qed
  have b: "binade a b = (if 2 ^ 53 \<le> r then e0 + 1 else e0)"
    using c by (auto simp: binade_def Let_def s0 simp flip: e0_def)
  note r1 = scaled_ratio[OF assms(2,3)]
  show "0 < d" by (rule r1(1))
  show "rat_of_int n / rat_of_int d = rat_of_int a / rat_of_int b * 2 powi (- binade a b)"
    by (rule r1(2))
  have m: "- (e0 + 1) = - e0 - 1" by simp
  have h: "rat_of_int a / rat_of_int b * 2 powi (- (e0 + 1)) = r / 2"
    unfolding m powi_half r_def by simp
  show "2 ^ 52 \<le> rat_of_int n / rat_of_int d"
  proof (cases "2 ^ 53 \<le> r")
    case True
    then have e: "binade a b = e0 + 1" using b by simp
    show ?thesis unfolding r1(2) e h using True by simp
  next
    case False
    then have e: "binade a b = e0" using b by simp
    show ?thesis unfolding r1(2) e r_def[symmetric] using rb by simp
  qed
  show "rat_of_int n / rat_of_int d < 2 ^ 53"
  proof (cases "2 ^ 53 \<le> r")
    case True
    then have e: "binade a b = e0 + 1" using b by simp
    show ?thesis unfolding r1(2) e h using rb by simp
  next
    case False
    then have e: "binade a b = e0" using b by simp
    show ?thesis unfolding r1(2) e r_def[symmetric] using False by simp
  qed
qed

lemma round_div_error:
  assumes "0 < d"
  shows "\<bar>rat_of_int (round_div n d) - rat_of_int n / rat_of_int d\<bar> \<le> 1 / 2"
proof -
  define f r where "f = n div d" and "r = n mod d"
  have n: "n = d * f + r" by (simp add: f_def r_def)
  have r: "0 \<le> r" "r < d" using assms by (simp_all add: r_def)
  have q: "rat_of_int n / rat_of_int d = rat_of_int f + rat_of_int r / rat_of_int d"
    using assms by (simp add: n field_simps)
  have lo: "0 \<le> rat_of_int r / rat_of_int d" using r assms by simp
  have hi: "rat_of_int r / rat_of_int d < 1" using r assms by simp
  have half: "(2 * r < d) \<longleftrightarrow> rat_of_int r / rat_of_int d < 1 / 2"
  proof -
    have "(rat_of_int r / rat_of_int d < 1 / 2) \<longleftrightarrow> (rat_of_int (2 * r) < rat_of_int d)"
      using assms by (simp add: field_simps)
    then show ?thesis by (simp only: of_int_less_iff)
  qed
  have half': "(d < 2 * r) \<longleftrightarrow> 1 / 2 < rat_of_int r / rat_of_int d"
  proof -
    have "(1 / 2 < rat_of_int r / rat_of_int d) \<longleftrightarrow> (rat_of_int d < rat_of_int (2 * r))"
      using assms by (simp add: field_simps)
    then show ?thesis by (simp only: of_int_less_iff)
  qed
  have "round_div n d = f \<or> round_div n d = f + 1"
    by (auto simp: round_div_def Let_def f_def)
  moreover have "round_div n d = f \<Longrightarrow> rat_of_int r / rat_of_int d \<le> 1 / 2"
    using half half' by (auto simp: round_div_def Let_def f_def[symmetric] r_def[symmetric] split: if_splits)
  moreover have "round_div n d = f + 1 \<Longrightarrow> 1 / 2 \<le> rat_of_int r / rat_of_int d"
    using half half' by (auto simp: round_div_def Let_def f_def[symmetric] r_def[symmetric] split: if_splits)
  ultimately show ?thesis unfolding q using lo hi by (auto simp: abs_if)
qed

lemma round_double_value:
  assumes "0 < q" and "quotient_of q = (a, b)" and "scaled a b (binade a b) = (n, d)"
  shows "round_double q = rat_of_int (round_div n d) * 2 powi (binade a b)"
proof -
  define e where "e = binade a b"
  define m where "m = round_div n d"
  have 1: "rat_of_int (m * 2 ^ nat e) = rat_of_int m * 2 powi e" if "0 \<le> e"
    using that by (simp add: power_int_def)
  have 2: "rat_of_int m / rat_of_int (2 ^ nat (- e)) = rat_of_int m * 2 powi e" if "\<not> 0 \<le> e"
    using that by (simp add: power_int_def field_simps)
  have "round_double q = (if 0 \<le> e then rat_of_int (m * 2 ^ nat e)
                          else rat_of_int m / rat_of_int (2 ^ nat (- e)))"
    using assms by (simp add: round_double_def Let_def e_def m_def)
  then show ?thesis using 1 2 by (simp add: e_def m_def)
qed

lemma quotient_pos:
  assumes "0 < q" and "quotient_of q = (a, b)"
  shows "0 < a" and "0 < b" and "q = rat_of_int a / rat_of_int b"
proof -
  show b: "0 < b" using assms(2) by (rule quotient_of_denom_pos)
  show q: "q = rat_of_int a / rat_of_int b" using assms(2) by (rule quotient_of_div)
  show "0 < a" using assms(1) b unfolding q by (simp add: zero_less_divide_iff)
qed

lemma round_double_error:
  assumes "0 < q"
  shows "\<bar>round_double q - q\<bar> \<le> q / 2 ^ 53"
proof -
  obtain a b where ab: "quotient_of q = (a, b)" by (cases "quotient_of q")
  note p = quotient_pos[OF assms ab]
  define e where "e = binade a b"
  obtain n d where nd: "scaled a b (binade a b) = (n, d)" by (cases "scaled a b (binade a b)")
  note r = binade_range[OF p(1,2) nd]
  define x where "x = rat_of_int n / rat_of_int d"
  define m where "m = rat_of_int (round_div n d)"
  have pe: "(0::rat) < 2 powi e" by simp
  have "x * 2 powi e = q * (2 powi (- e) * 2 powi e)"
    unfolding x_def r(2) p(3)[symmetric] e_def by simp
  also have "2 powi (- e) * 2 powi e = (1::rat)"
    by (simp add: power_int_minus)
  finally have q: "q = x * 2 powi e" by simp
  have v: "round_double q = m * 2 powi e"
    unfolding m_def e_def by (rule round_double_value[OF assms ab nd])
  have "\<bar>round_double q - q\<bar> = \<bar>m - x\<bar> * 2 powi e"
    unfolding v by (subst q) (simp add: abs_mult flip: left_diff_distrib)
  also have "\<dots> \<le> 1 / 2 * 2 powi e"
    using round_div_error[OF r(1), of n] pe unfolding m_def x_def
    by (intro mult_right_mono) simp_all
  also have "2 powi e \<le> q / 2 ^ 52"
  proof -
    have "2 ^ 52 * 2 powi e \<le> x * 2 powi e"
      using r(3) pe unfolding x_def by (intro mult_right_mono) simp_all
    then show ?thesis unfolding q[symmetric] by (simp add: field_simps)
  qed
  finally show ?thesis by simp
qed

lemma round_div_one: "round_div n 1 = n"
  by (simp add: round_div_def)

lemma round_double_int:
  assumes "0 \<le> k" and "k < 2 ^ 53"
  shows "round_double (rat_of_int k) = rat_of_int k"
proof (cases "k = 0")
  case True
  then show ?thesis by (simp add: round_double_def)
next
  case False
  then have k: "0 < k" using assms(1) by simp
  then have q: "0 < rat_of_int k" by simp
  have ab: "quotient_of (rat_of_int k) = (k, 1)"
    by (simp add: of_int_rat quotient_of_Fract)
  define e where "e = binade k 1"
  obtain n d where nd: "scaled k 1 (binade k 1) = (n, d)" by (cases "scaled k 1 (binade k 1)")
  have k1: "(0::int) < 1" by simp
  note r = binade_range[OF k k1 nd]
  have e0: "e \<le> 0"
  proof (rule ccontr)
    assume "\<not> e \<le> 0"
    then have "1 \<le> e" by simp
    then have "(2::rat) powi (- e) \<le> 2 powi (- 1)"
      by (intro power_int_increasing) simp_all
    then have "rat_of_int k * 2 powi (- e) \<le> rat_of_int k * (1 / 2)"
      using q by (intro mult_left_mono) simp_all
    moreover have "rat_of_int k < 2 ^ 53" using assms(2) by (simp flip: of_int_less_iff)
    ultimately have "rat_of_int k * 2 powi (- e) < 2 ^ 52" by simp
    with r(2,3) show False by (simp add: e_def)
  qed
  have "n = k * 2 ^ nat (- e) \<and> d = 1"
    using nd e0 unfolding e_def[symmetric] by (auto simp: scaled_def split: if_splits)
  then have n: "n = k * 2 ^ nat (- e)" and d: "d = 1" by simp_all
  have "round_double (rat_of_int k) = rat_of_int (round_div n d) * 2 powi e"
    unfolding e_def by (rule round_double_value[OF q ab nd])
  also have "\<dots> = rat_of_int k * (2 ^ nat (- e) * 2 powi e)"
    by (simp add: d round_div_one n)
  also have "2 ^ nat (- e) * 2 powi e = (1::rat)"
    using e0 by (simp add: power_int_def flip: power_mult_distrib)
  finally show ?thesis by simp
qed

subsection \<open>Grouped means\<close>

lemma round_double_zero: "round_double 0 = 0"
  by (simp add: round_double_def)

lemma floor_scaled_int: "rat_of_int \<lfloor>real_of_int i * 2 ^ n\<rfloor> / 2 ^ n = rat_of_int i"
proof -
  have "real_of_int i * 2 ^ n = real_of_int (i * 2 ^ n)" by simp
  then have "\<lfloor>real_of_int i * 2 ^ n\<rfloor> = i * 2 ^ n" by (simp only: floor_of_int)
  then show ?thesis by simp
qed

lemma severity_code_cases:
  assumes "severity_code v"
  shows "double_of v = map_option rat_of_int (whole v)"
    and "whole v = Some i \<Longrightarrow> 0 \<le> i \<and> i < 2 ^ 32"
proof -
  from assms consider "v = NA" | j where "0 \<le> j" "j < 2 ^ 32" "v = CInt j"
    | j where "0 \<le> j" "j < 2 ^ 32" "v = CFlt (of_int j)"
    unfolding severity_code_def by blast
  then have "double_of v = map_option rat_of_int (whole v)
      \<and> (whole v = Some i \<longrightarrow> 0 \<le> i \<and> i < 2 ^ 32)"
  proof cases
    case 1 then show ?thesis by simp
  next
    case 2
    have "j < 2 ^ 53" using 2(2) by simp
    then show ?thesis using 2 by (auto simp: round_double_int)
  next
    case 3
    have "double_of v = Some (rat_of_int j)"
      unfolding 3(3) by (simp only: double_of.simps floor_scaled_int)
    moreover have "whole v = Some j" unfolding 3(3) by simp
    ultimately show ?thesis using 3(1,2) by simp
  qed
  then show "double_of v = map_option rat_of_int (whole v)"
    and "whole v = Some i \<Longrightarrow> 0 \<le> i \<and> i < 2 ^ 32" by blast+
qed

lemma kahan_add_int:
  assumes "0 \<le> i" and "0 \<le> s" and "s + i < 2 ^ 53"
  shows "kahan_add (rat_of_int i) (rat_of_int s, 0, n) = (rat_of_int (s + i), 0, Suc n)"
proof -
  have i: "round_double (rat_of_int i) = rat_of_int i"
    using assms by (intro round_double_int) simp_all
  have t: "round_double (rat_of_int (s + i)) = rat_of_int (s + i)"
    using assms by (intro round_double_int) simp_all
  have t': "round_double (rat_of_int s + rat_of_int i) = rat_of_int (s + i)"
    using t by simp
  have d: "rat_of_int (s + i) - rat_of_int s = rat_of_int i" by simp
  show ?thesis
    unfolding kahan_add_def Let_def prod.case diff_zero i t' d
    by (simp add: round_double_zero)
qed

lemma add_value_code:
  assumes "severity_code v" and "0 \<le> s" and "s + 2 ^ 32 \<le> 2 ^ 53"
  shows "add_value v (rat_of_int s, 0, n) =
     (case whole v of Some i \<Rightarrow> (rat_of_int (s + i), 0, Suc n) | None \<Rightarrow> (rat_of_int s, 0, n))"
proof (cases "whole v")
  case None
  then show ?thesis by (simp add: add_value_def severity_code_cases(1)[OF assms(1)])
next
  case (Some i)
  from severity_code_cases(2)[OF assms(1) Some] have b: "0 \<le> i" "i < 2 ^ 32" by simp_all
  then have "s + i < 2 ^ 53" using assms(3) by linarith
  from kahan_add_int[OF b(1) assms(2) this] show ?thesis
    by (simp add: add_value_def severity_code_cases(1)[OF assms(1)] Some)
qed

lemma map_of_group_add:
  "map_of (group_add k v g) w =
     (if w = k then Some (add_value v (case map_of g k of Some a \<Rightarrow> a | None \<Rightarrow> (0, 0, 0)))
      else map_of g w)"
  by (induction g) auto

lemma picked_Nil: "picked w [] = []" by (simp add: picked_def map_filter_simps)

lemma picked_Cons:
  "picked w ((k, v) # kvs) =
     (if k = w then (case whole v of Some x \<Rightarrow> x # picked w kvs | None \<Rightarrow> picked w kvs)
      else picked w kvs)"
  by (simp add: picked_def map_filter_simps split: option.splits)

lemma picked_absent: "w \<notin> fst ` set kvs \<Longrightarrow> picked w kvs = []"
  by (induction kvs) (auto simp: picked_Nil picked_Cons)

lemma map_of_group_fold:
  assumes "w \<noteq> NA"
  shows "\<forall>v\<in>snd ` set kvs. severity_code v \<Longrightarrow>
     (case map_of g w of Some a \<Rightarrow> a | None \<Rightarrow> (0, 0, 0)) = (rat_of_int s, 0, n) \<Longrightarrow>
     0 \<le> s \<Longrightarrow> s + 2 ^ 32 * int (length kvs) \<le> 2 ^ 53 \<Longrightarrow>
     map_of (foldl group_step g kvs) w =
       (if w \<in> fst ` set kvs
        then Some (rat_of_int (s + sum_list (picked w kvs)), 0, n + length (picked w kvs))
        else map_of g w)"
proof (induction kvs arbitrary: g s n)
  case Nil then show ?case by simp
next
  case (Cons kv kvs)
  obtain k v where kv: "kv = (k, v)" by (cases kv)
  have sv: "severity_code v" and sr: "\<forall>v\<in>snd ` set kvs. severity_code v"
    using Cons.prems(1) by (auto simp: kv)
  have b: "s + 2 ^ 32 \<le> 2 ^ 53" and br: "s + 2 ^ 32 + 2 ^ 32 * int (length kvs) \<le> 2 ^ 53"
    using Cons.prems(4) by (simp_all add: algebra_simps)
  show ?case
  proof (cases "k = w")
    case False
    then have m: "map_of (group_step g (k, v)) w = map_of g w"
      by (auto simp: group_step_def map_of_group_add)
    have "s + 2 ^ 32 * int (length kvs) \<le> 2 ^ 53" using br by simp
    from Cons.IH[OF sr Cons.prems(2)[folded m] Cons.prems(3) this]
    show ?thesis using False by (simp add: kv m picked_Cons)
  next
    case True
    have kw: "kv = (w, v)" using kv True by simp
    have m: "map_of (group_step g (w, v)) w =
        Some (add_value v (case map_of g w of Some a \<Rightarrow> a | None \<Rightarrow> (0, 0, 0)))"
      using assms by (simp add: group_step_def map_of_group_add)
    note a = add_value_code[OF sv Cons.prems(3) b, of n]
    show ?thesis
    proof (cases "whole v")
      case None
      have m': "(case map_of (group_step g (w, v)) w of Some a \<Rightarrow> a | None \<Rightarrow> (0, 0, 0))
          = (rat_of_int s, 0, n)"
        by (simp add: m Cons.prems(2) a None)
      have "s + 2 ^ 32 * int (length kvs) \<le> 2 ^ 53" using br by simp
      from Cons.IH[OF sr m' Cons.prems(3) this]
      show ?thesis
        by (simp add: kw picked_Cons None m Cons.prems(2) a picked_absent picked_Nil)
    next
      case (Some i)
      from severity_code_cases(2)[OF sv Some] have i: "0 \<le> i" "i < 2 ^ 32" by simp_all
      have m': "(case map_of (group_step g (w, v)) w of Some a \<Rightarrow> a | None \<Rightarrow> (0, 0, 0))
          = (rat_of_int (s + i), 0, Suc n)"
        by (simp add: m Cons.prems(2) a Some)
      have "0 \<le> s + i" using i Cons.prems(3) by simp
      moreover have "s + i + 2 ^ 32 * int (length kvs) \<le> 2 ^ 53" using br i by simp
      ultimately show ?thesis using Cons.IH[OF sr m']
        by (simp add: kw picked_Cons Some m Cons.prems(2) a picked_absent picked_Nil
              add.assoc)
    qed
  qed
qed

lemma keys_group_add:
  "map fst (group_add k v g) = (if k \<in> fst ` set g then map fst g else map fst g @ [k])"
proof (induction g)
  case Nil then show ?case by simp
next
  case (Cons x g)
  show ?case
  proof (cases "k = fst x")
    case True then show ?thesis by (cases x) simp
  next
    case False
    then have "group_add k v (x # g) = x # group_add k v g" by (cases x) simp
    then show ?thesis using False by (simp add: Cons.IH)
  qed
qed

lemma distinct_group_fold:
  "distinct (map fst g) \<Longrightarrow> distinct (map fst (foldl group_step g kvs))"
proof (induction kvs arbitrary: g)
  case Nil then show ?case by simp
next
  case (Cons kv kvs)
  have "distinct (map fst (group_step g kv))"
    using Cons.prems by (auto simp: group_step_def keys_group_add)
  then show ?case by (simp add: Cons.IH)
qed

lemma set_insert_group: "set (insert_group x ys) = insert x (set ys)"
  by (induction ys) auto

lemma length_insert_group: "length (insert_group x ys) = Suc (length ys)"
  by (induction ys) auto

lemma sort_groups_Cons: "sort_groups (x # g) = insert_group x (sort_groups g)"
  by (simp add: sort_groups_def)

lemma set_sort_groups: "set (sort_groups g) = set g"
  by (induction g) (simp_all add: sort_groups_def set_insert_group)

lemma length_sort_groups: "length (sort_groups g) = length g"
  by (induction g) (simp_all add: sort_groups_def length_insert_group)

lemma distinct_sort_groups:
  assumes "distinct (map fst g)"
  shows "distinct (map fst (sort_groups g))"
proof -
  have "card (set (map fst (sort_groups g))) = card (set (map fst g))"
    by (simp add: set_sort_groups)
  also have "\<dots> = length (map fst g)" using assms by (rule distinct_card)
  also have "\<dots> = length (map fst (sort_groups g))" by (simp add: length_sort_groups)
  finally show ?thesis by (rule card_distinct)
qed

lemma map_of_sort_groups:
  assumes "distinct (map fst g)"
  shows "map_of (sort_groups g) = map_of g"
  using map_of_inject_set[OF distinct_sort_groups[OF assms] assms] set_sort_groups[of g]
  by simp

lemma map_of_groups:
  assumes "w \<noteq> NA" and "\<forall>v\<in>set vals. severity_code v" and "length keys \<le> 50000"
  shows "map_of (groups keys vals) w =
     (if w \<in> fst ` set (zip keys vals)
      then Some (rat_of_int (sum_list (group_values keys vals w)), 0,
                 length (group_values keys vals w))
      else None)"
proof -
  have d: "distinct (map fst (foldl group_step [] (zip keys vals)))"
    by (rule distinct_group_fold) simp
  have s: "\<forall>v\<in>snd ` set (zip keys vals). severity_code v"
    using assms(2) by (auto dest: set_zip_rightD)
  have "int (length (zip keys vals)) \<le> 50000" using assms(3) by simp
  then have b: "0 + 2 ^ 32 * int (length (zip keys vals)) \<le> 2 ^ 53" by simp
  have "map_of (foldl group_step [] (zip keys vals)) w =
       (if w \<in> fst ` set (zip keys vals)
        then Some (rat_of_int (0 + sum_list (picked w (zip keys vals))), 0,
                   0 + length (picked w (zip keys vals)))
        else map_of [] w)"
    by (rule map_of_group_fold[OF assms(1) s _ _ b]) simp_all
  then show ?thesis
    by (simp add: groups_def map_of_sort_groups[OF d] group_values_def)
qed

lemma map_of_means:
  "map_of (map (\<lambda>(k, sumx, compensation, nobs).
                  (k, if nobs = 0 then None else Some (round_double (sumx / of_nat nobs)))) g) w
     = map_option (\<lambda>(sumx, compensation, nobs).
                      if nobs = 0 then None else Some (round_double (sumx / of_nat nobs)))
         (map_of g w)"
  by (induction g) auto

lemma groupby_mean_entry:
  assumes "groupby_mean df key val = Inr means" and "w \<noteq> NA" and "w \<in> set (col df key)"
    and "\<forall>v\<in>set (col df val). severity_code v" and "len df \<le> 50000"
  shows "map_of means w =
     Some (map_option round_double (arithmetic_mean (group_values (col df key) (col df val) w)))"
proof -
  have l: "length (col df key) = length (col df val)" by (simp add: length_col)
  then have "w \<in> fst ` set (zip (col df key) (col df val))"
    using assms(3) by (simp add: map_fst_zip flip: set_map)
  moreover have "length (col df key) \<le> 50000" using assms(5) by (simp add: length_col len_def)
  ultimately have g: "map_of (groups (col df key) (col df val)) w
      = Some (rat_of_int (sum_list (group_values (col df key) (col df val) w)), 0,
              length (group_values (col df key) (col df val) w))"
    by (simp add: map_of_groups[OF assms(2,4)])
  have "means = map (\<lambda>(k, sumx, compensation, nobs).
                  (k, if nobs = 0 then None else Some (round_double (sumx / of_nat nobs))))
                  (groups (col df key) (col df val))"
    using assms(1) by (simp add: groupby_mean_def split: if_splits)
  then show ?thesis by (simp add: map_of_means g arithmetic_mean_def)
qed

subsection \<open>Aggregates against their reference definitions\<close>

lemma set_dropna_series: "set (map (\<lambda>(k, x). (k, Some x)) (sort_key f (dropna s))) \<subseteq> set s"
  by (auto simp: set_dropna)

lemma set_sort_values_desc: "set (sort_values_desc s) \<subseteq> set s"
  unfolding sort_values_desc_def using set_dropna_series[of _ s] by auto

lemma weather_severity_subset:
  assumes "weather_severity df = Inr ws"
  shows "\<exists>means. groupby_mean df ''Weather_Condition'' ''Severity'' = Inr means
           \<and> set ws \<subseteq> set means \<and> length ws \<le> 10"
proof (cases "groupby_mean df ''Weather_Condition'' ''Severity''")
  case (Inl e)
  with assms show ?thesis by (simp add: weather_severity_def)
next
  case (Inr means)
  with assms have w: "ws = take 10 (sort_values_desc means)" by (simp add: weather_severity_def)
  have "set ws \<subseteq> set means"
    unfolding w using set_take_subset[of 10 "sort_values_desc means"] set_sort_values_desc[of means]
    by blast
  with Inr w show ?thesis by simp
qed

lemma map_of_hour_counts:
  "map_of (hour_counts df) h =
     (if h \<noteq> NA \<and> h \<in> set (col df ''Hour'')
      then Some (Some (occurrences (col df ''Hour'') h)) else None)"
  by (simp add: hour_counts_def map_of_sort_index distinct_value_counts map_of_value_counts)

lemma map_of_reindexed:
  assumes "d \<in> set order" and "d \<noteq> NA"
  shows "map_of (reindex (value_counts cs) order) d =
     Some (if d \<in> set cs then Some (occurrences cs d) else None)"
  using assms by (simp add: map_of_reindex map_of_value_counts)

lemma day_order_not_NA: "d \<in> set day_order \<Longrightarrow> d \<noteq> NA"
  by (auto simp: day_order_def)

lemma period_order_not_NA: "d \<in> set period_order \<Longrightarrow> d \<noteq> NA"
  by (auto simp: period_order_def)

text \<open>
  C1 (as amended). An hour that occurs in the Hour column has, as its hourly count, the
  number of rows with that hour, and no other hour has an entry. A day name (a time period)
  that occurs in its column has the number of rows with that day (period) as its count, and
  one that does not occur has the missing value NaN, not 0. When the grouped mean is
  computed on a table of at most 50000 rows whose Severity values are whole-number codes
  (or missing), a weather condition with at least one row has the arithmetic mean of the
  Severity values present in its rows, rounded to double precision (NaN when none is
  present); rounding a positive number to double precision changes it by at most its
  \<open>2 ^ 53\<close>-th part. The ten entries kept for the chart are among these means.
\<close>

theorem aggregates_match_reference:
  "(\<forall>h. map_of (hour_counts df) h =
          (if h \<noteq> NA \<and> h \<in> set (col df ''Hour'')
           then Some (Some (occurrences (col df ''Hour'') h)) else None))
   \<and> (\<forall>d\<in>set day_order. map_of (day_counts df) d =
          Some (if d \<in> set (col df ''Day_of_Week'')
                then Some (occurrences (col df ''Day_of_Week'') d) else None))
   \<and> (\<forall>p\<in>set period_order. map_of (period_counts df) p =
          Some (if p \<in> set (col df ''Time_Period'')
                then Some (occurrences (col df ''Time_Period'') p) else None))
   \<and> (\<forall>means w. groupby_mean df ''Weather_Condition'' ''Severity'' = Inr means
          \<and> (\<forall>v\<in>set (col df ''Severity''). severity_code v) \<and> len df \<le> 50000
          \<and> w \<noteq> NA \<and> w \<in> set (col df ''Weather_Condition'') \<longrightarrow>
          map_of means w = Some (map_option round_double (arithmetic_mean
            (group_values (col df ''Weather_Condition'') (col df ''Severity'') w))))
   \<and> (\<forall>q. 0 < q \<longrightarrow> \<bar>round_double q - q\<bar> \<le> q / 2 ^ 53)
   \<and> (\<forall>ws. weather_severity df = Inr ws \<longrightarrow>
          (\<exists>means. groupby_mean df ''Weather_Condition'' ''Severity'' = Inr means
             \<and> set ws \<subseteq> set means \<and> length ws \<le> 10))"
proof (intro conjI allI ballI impI)
  fix h show "map_of (hour_counts df) h =
          (if h \<noteq> NA \<and> h \<in> set (col df ''Hour'')
           then Some (Some (occurrences (col df ''Hour'') h)) else None)"
    by (rule map_of_hour_counts)
next
  fix d assume "d \<in> set day_order"
  then show "map_of (day_counts df) d =
          Some (if d \<in> set (col df ''Day_of_Week'')
                then Some (occurrences (col df ''Day_of_Week'') d) else None)"
    unfolding day_counts_def by (intro map_of_reindexed day_order_not_NA)
next
  fix p assume "p \<in> set period_order"
  then show "map_of (period_counts df) p =
          Some (if p \<in> set (col df ''Time_Period'')
                then Some (occurrences (col df ''Time_Period'') p) else None)"
    unfolding period_counts_def by (intro map_of_reindexed period_order_not_NA)
next
  fix means w
  assume "groupby_mean df ''Weather_Condition'' ''Severity'' = Inr means
          \<and> (\<forall>v\<in>set (col df ''Severity''). severity_code v) \<and> len df \<le> 50000
          \<and> w \<noteq> NA \<and> w \<in> set (col df ''Weather_Condition'')"
  then show "map_of means w = Some (map_option round_double (arithmetic_mean
            (group_values (col df ''Weather_Condition'') (col df ''Severity'') w)))"
    by (intro groupby_mean_entry) simp_all
next
  fix q :: rat assume "0 < q"
  then show "\<bar>round_double q - q\<bar> \<le> q / 2 ^ 53" by (rule round_double_error)
next
  fix ws assume "weather_severity df = Inr ws"
  then show "\<exists>means. groupby_mean df ''Weather_Condition'' ''Severity'' = Inr means
             \<and> set ws \<subseteq> set means \<and> length ws \<le> 10"
    by (rule weather_severity_subset)
qed

lemma preprocess_other:
  assumes "preprocess df0 = Inr df"
    and "c \<notin> {''Start_Time'', ''Hour'', ''Day_of_Week'', ''Month'', ''Month_Name'', ''Year'',
                 ''Is_Weekend'', ''Time_Period''}"
  shows "col df c = col df0 c"
  using assms
  by (auto simp add: preprocess_def getcol_def Let_def frame apply_hours split: if_splits)

lemma ex_days_enriched: "preprocess ex_days = Inr (enriched ex_days)"
  by (rule preprocess_enriched) (simp add: ex_days_def)

lemma ex_thirds_enriched: "preprocess ex_thirds = Inr (enriched ex_thirds)"
  by (rule preprocess_enriched) (simp add: ex_thirds_def)

lemma weather_ex_thirds:
  "col (enriched ex_thirds) ''Weather_Condition'' = [CStr ''Rain'', CStr ''Rain'', CStr ''Rain'']"
  by (simp add: preprocess_other[OF ex_thirds_enriched]) (simp add: ex_thirds_def col_def mk_row_def)

lemma severity_ex_thirds: "col (enriched ex_thirds) ''Severity'' = [CInt 1, CInt 2, CInt 2]"
  by (simp add: preprocess_other[OF ex_thirds_enriched]) (simp add: ex_thirds_def col_def mk_row_def)

lemma len_ex_thirds: "len (enriched ex_thirds) = 3"
  using length_col[of "enriched ex_thirds" "''Severity''"] by (simp add: severity_ex_thirds len_def)

lemma len_ex_days: "len (enriched ex_days) = 3"
  using length_col[of "enriched ex_days" "''Severity''"]
  by (simp add: preprocess_other[OF ex_days_enriched] len_def) (simp add: ex_days_def col_def)

lemma groupby_ex_thirds: "\<not> isl (groupby_mean (enriched ex_thirds) ''Weather_Condition'' ''Severity'')"
  by (simp add: groupby_mean_def severity_ex_thirds)

lemma severity_code_int: "0 \<le> i \<Longrightarrow> i < 2 ^ 32 \<Longrightarrow> severity_code (CInt i)"
  by (auto simp: severity_code_def)

lemma severity_code_NA: "severity_code NA"
  by (simp add: severity_code_def)

lemma round_double_five_thirds: "round_double (5 / 3) = 7505999378950827 / 4503599627370496"
  by code_simp

lemma hours_ex_days: "col (enriched ex_days) ''Hour'' = [CInt 8, CInt 8, CInt 17]"
  unfolding preprocess_cols(1)[OF ex_days_enriched]
  by (simp add: hours_of_def ex_days_def col_def mk_row_def to_datetime_def dt_field_def stamp_def)

lemma days_ex_days:
  "col (enriched ex_days) ''Day_of_Week'' = [CStr ''Monday'', CStr ''Monday'', CStr ''Tuesday'']"
  unfolding preprocess_cols(3)[OF ex_days_enriched]
  by (simp add: ex_days_def col_def mk_row_def to_datetime_def dt_text_def stamp_def)

lemma weather_ex_days:
  "col (enriched ex_days) ''Weather_Condition'' = [CStr ''Rain'', CStr ''Rain'', CStr ''Clear'']"
  by (simp add: preprocess_other[OF ex_days_enriched]) (simp add: ex_days_def col_def mk_row_def)

lemma severity_ex_days: "col (enriched ex_days) ''Severity'' = [CInt 2, NA, CInt 3]"
  by (simp add: preprocess_other[OF ex_days_enriched]) (simp add: ex_days_def col_def mk_row_def)

lemma groupby_ex_days: "\<not> isl (groupby_mean (enriched ex_days) ''Weather_Condition'' ''Severity'')"
  by (simp add: groupby_mean_def severity_ex_days)

theorem aggregates_match_reference_witness:
  "map_of (hour_counts (enriched ex_days)) (CInt 8) = Some (Some 2)
   \<and> map_of (day_counts (enriched ex_days)) (CStr ''Monday'') = Some (Some 2)
   \<and> map_of (period_counts (enriched ex_days)) (CStr ''Night'') = Some None
   \<and> (\<exists>means. groupby_mean (enriched ex_days) ''Weather_Condition'' ''Severity'' = Inr means
         \<and> map_of means (CStr ''Rain'') = Some (Some 2))
   \<and> (\<exists>means. groupby_mean (enriched ex_thirds) ''Weather_Condition'' ''Severity'' = Inr means
         \<and> map_of means (CStr ''Rain'') = Some (Some (7505999378950827 / 4503599627370496)))
   \<and> \<bar>round_double (5 / 3) - 5 / 3\<bar> \<le> 5 / 3 / 2 ^ 53"
proof -
  note t = aggregates_match_reference[of "enriched ex_days"]
  from t have "map_of (hour_counts (enriched ex_days)) (CInt 8) =
          (if CInt 8 \<noteq> NA \<and> CInt 8 \<in> set (col (enriched ex_days) ''Hour'')
           then Some (Some (occurrences (col (enriched ex_days) ''Hour'') (CInt 8))) else None)"
    by blast
  then have 1: "map_of (hour_counts (enriched ex_days)) (CInt 8) = Some (Some 2)"
    by (simp add: hours_ex_days occurrences_def)
  from t have d: "\<forall>d\<in>set day_order. map_of (day_counts (enriched ex_days)) d =
          Some (if d \<in> set (col (enriched ex_days) ''Day_of_Week'')
                then Some (occurrences (col (enriched ex_days) ''Day_of_Week'') d) else None)"
    by (elim conjE)
  have "CStr ''Monday'' \<in> set day_order" by (simp add: day_order_def)
  with d have 2: "map_of (day_counts (enriched ex_days)) (CStr ''Monday'') = Some (Some 2)"
    by (simp add: days_ex_days occurrences_def)
  from t have p: "\<forall>p\<in>set period_order. map_of (period_counts (enriched ex_days)) p =
          Some (if p \<in> set (col (enriched ex_days) ''Time_Period'')
                then Some (occurrences (col (enriched ex_days) ''Time_Period'') p) else None)"
    by (elim conjE)
  have "CStr ''Night'' \<in> set period_order" by (simp add: period_order_def)
  moreover have "col (enriched ex_days) ''Time_Period'' = [CStr ''Morning'', CStr ''Morning'', CStr ''Evening'']"
    using hours_ex_days
    by (simp add: preprocess_cols(2)[OF ex_days_enriched] flip: preprocess_cols(1)[OF ex_days_enriched])
       (simp add: get_time_period_def)
  ultimately have 3: "map_of (period_counts (enriched ex_days)) (CStr ''Night'') = Some None"
    using p by simp
  obtain means where m: "groupby_mean (enriched ex_days) ''Weather_Condition'' ''Severity'' = Inr means"
    using groupby_ex_days by (cases "groupby_mean (enriched ex_days) ''Weather_Condition'' ''Severity''") auto
  have c: "\<forall>v\<in>set (col (enriched ex_days) ''Severity''). severity_code v"
    by (simp add: severity_ex_days severity_code_int severity_code_NA)
  from t have g: "\<forall>means w. groupby_mean (enriched ex_days) ''Weather_Condition'' ''Severity'' = Inr means
          \<and> (\<forall>v\<in>set (col (enriched ex_days) ''Severity''). severity_code v)
          \<and> len (enriched ex_days) \<le> 50000
          \<and> w \<noteq> NA \<and> w \<in> set (col (enriched ex_days) ''Weather_Condition'') \<longrightarrow>
          map_of means w = Some (map_option round_double (arithmetic_mean
            (group_values (col (enriched ex_days) ''Weather_Condition'')
               (col (enriched ex_days) ''Severity'') w)))"
    by (elim conjE)
  have "map_of means (CStr ''Rain'') = Some (map_option round_double (arithmetic_mean
            (group_values (col (enriched ex_days) ''Weather_Condition'')
               (col (enriched ex_days) ''Severity'') (CStr ''Rain''))))"
    by (rule g[rule_format]) (simp add: m c len_ex_days weather_ex_days)
  then have 4: "map_of means (CStr ''Rain'') = Some (Some 2)"
    using round_double_int[of 2]
    by (simp add: weather_ex_days severity_ex_days group_values_def picked_def map_filter_simps
          arithmetic_mean_def)
  note t' = aggregates_match_reference[of "enriched ex_thirds"]
  obtain means' where m': "groupby_mean (enriched ex_thirds) ''Weather_Condition'' ''Severity'' = Inr means'"
    using groupby_ex_thirds
    by (cases "groupby_mean (enriched ex_thirds) ''Weather_Condition'' ''Severity''") auto
  have c': "\<forall>v\<in>set (col (enriched ex_thirds) ''Severity''). severity_code v"
    by (simp add: severity_ex_thirds severity_code_int)
  from t' have g': "\<forall>means w. groupby_mean (enriched ex_thirds) ''Weather_Condition'' ''Severity'' = Inr means
          \<and> (\<forall>v\<in>set (col (enriched ex_thirds) ''Severity''). severity_code v)
          \<and> len (enriched ex_thirds) \<le> 50000
          \<and> w \<noteq> NA \<and> w \<in> set (col (enriched ex_thirds) ''Weather_Condition'') \<longrightarrow>
          map_of means w = Some (map_option round_double (arithmetic_mean
            (group_values (col (enriched ex_thirds) ''Weather_Condition'')
               (col (enriched ex_thirds) ''Severity'') w)))"
    by (elim conjE)
  have "map_of means' (CStr ''Rain'') = Some (map_option round_double (arithmetic_mean
            (group_values (col (enriched ex_thirds) ''Weather_Condition'')
               (col (enriched ex_thirds) ''Severity'') (CStr ''Rain''))))"
    by (rule g'[rule_format]) (simp add: m' c' len_ex_thirds weather_ex_thirds)
  then have 5: "map_of means' (CStr ''Rain'') = Some (Some (7505999378950827 / 4503599627370496))"
    by (simp add: weather_ex_thirds severity_ex_thirds group_values_def picked_def map_filter_simps
          arithmetic_mean_def round_double_five_thirds)
  from t have "\<forall>q. 0 < q \<longrightarrow> \<bar>round_double q - q\<bar> \<le> q / 2 ^ 53"
    by (elim conjE)
  then have "0 < (5 / 3 :: rat) \<longrightarrow> \<bar>round_double (5 / 3) - 5 / 3\<bar> \<le> 5 / 3 / 2 ^ 53"
    by (rule spec)
  then have 6: "\<bar>round_double (5 / 3) - 5 / 3\<bar> \<le> 5 / 3 / 2 ^ 53"
    by (rule mp) simp
  from 1 2 3 4 5 6 m m' show ?thesis by blast
qed



text \<open>
  The claim as stated fails on a table with two Monday rows and one Tuesday row: no row is
  on a Wednesday, and the daily count of Wednesday is NaN, not 0. In the same table the rows
  with weather Rain have the severities 2 and NaN, and the grouped mean is 2: the mean of
  the values present, not of all the rows.
\<close>

theorem absent_day_is_nan_counterexample:
  "map_of (day_counts (enriched ex_days)) (CStr ''Wednesday'') = Some None
   \<and> occurrences (col (enriched ex_days) ''Day_of_Week'') (CStr ''Wednesday'') = 0
   \<and> col (enriched ex_days) ''Weather_Condition'' = [CStr ''Rain'', CStr ''Rain'', CStr ''Clear'']
   \<and> col (enriched ex_days) ''Severity'' = [CInt 2, NA, CInt 3]
   \<and> (case groupby_mean (enriched ex_days) ''Weather_Condition'' ''Severity'' of
         Inr means \<Rightarrow> map_of means (CStr ''Rain'') = Some (Some 2)
       | Inl e \<Rightarrow> False)"
proof -
  have 1: "map_of (day_counts (enriched ex_days)) (CStr ''Wednesday'') = Some None"
    unfolding day_counts_def
    by (subst map_of_reindexed) (simp_all add: day_order_def days_ex_days)
  have 2: "occurrences (col (enriched ex_days) ''Day_of_Week'') (CStr ''Wednesday'') = 0"
    by (simp add: days_ex_days occurrences_def)
  have 3: "case groupby_mean (enriched ex_days) ''Weather_Condition'' ''Severity'' of
         Inr means \<Rightarrow> map_of means (CStr ''Rain'') = Some (Some 2)
       | Inl e \<Rightarrow> False"
    unfolding groupby_mean_def severity_ex_days weather_ex_days by code_simp
  from 1 2 3 weather_ex_days severity_ex_days show ?thesis by simp
qed

subsection \<open>The statistics of the report\<close>

lemma percent_Some: "percent (Some n) m = Some (pct_of n m)"
  by (simp add: percent_def)

lemma pct_of_near: "near_percentage (pct_of c n) c n"
proof (cases "c = 0 \<or> n = 0")
  case True
  then have z: "rat_of_nat c / rat_of_nat n = 0" by auto
  show ?thesis
    unfolding near_percentage_def exact_percentage_def pct_of_def z
    by (simp add: round_double_zero)
next
  case False
  define q where "q = rat_of_nat c / rat_of_nat n"
  define r where "r = round_double q"
  define d where "d = q / 2 ^ 53"
  define p where "p = round_double (r * 100)"
  have q: "0 < q" using False by (simp add: q_def)
  have d: "0 < d" "d < q" using q by (simp_all add: d_def field_simps)
  have "\<bar>r - q\<bar> \<le> d" unfolding r_def d_def by (rule round_double_error[OF q])
  then have e1: "r - q \<le> d" "q - r \<le> d" by (simp_all only: abs_le_iff minus_diff_eq)
  have r: "0 < r" "r \<le> 2 * q" using e1 d by linarith+
  have "0 < r * 100" using r by simp
  from round_double_error[OF this]
  have "\<bar>p - r * 100\<bar> \<le> r * 100 / 2 ^ 53" unfolding p_def .
  also have "r * 100 / 2 ^ 53 \<le> 2 * q * 100 / 2 ^ 53"
    using r(2) by (intro divide_right_mono mult_right_mono) simp_all
  also have "\<dots> = 200 * d" by (simp add: d_def)
  finally have "\<bar>p - r * 100\<bar> \<le> 200 * d" .
  then have e2: "p - r * 100 \<le> 200 * d" "r * 100 - p \<le> 200 * d"
    by (simp_all only: abs_le_iff minus_diff_eq)
  have "\<bar>p - q * 100\<bar> \<le> 400 * d" using e1 e2 by (simp only: abs_le_iff minus_diff_eq) linarith
  also have "400 * d = q * 100 / 2 ^ 51" by (simp add: d_def)
  finally show ?thesis
    by (simp only: near_percentage_def exact_percentage_def pct_of_def q_def r_def p_def)
qed

text \<open>
  C3 (as amended). In every report the peak hour is an hour of the table whose number of
  rows is maximal over the hours present, the lowest hour one whose number is minimal over
  the hours present; the most dangerous day has the maximal and the safest day the minimal
  number of rows over the days that have at least one row (a day without rows is never
  reported); the most dangerous period has the maximal number over the periods present.
  Each reported count is that number of rows. Each reported percentage is the count divided
  by the number of loaded rows, times 100, evaluated in double precision: it differs from
  the exact percentage by at most the exact percentage divided by \<open>2 ^ 51\<close>.
\<close>

theorem summary_statistics:
  assumes "preprocess df0 = Inr df" and "summary df = Inr r"
  shows "(\<exists>n. most_frequent (col df ''Hour'') (peak_hour r) n \<and> peak_hour_count r = Some n
            \<and> peak_hour_pct r = Some (pct_of n (total r))
            \<and> near_percentage (pct_of n (total r)) n (total r))
    \<and> (\<exists>n. least_frequent (col df ''Hour'') (lowest_hour r) n \<and> lowest_hour_count r = Some n
            \<and> lowest_hour_pct r = Some (pct_of n (total r))
            \<and> near_percentage (pct_of n (total r)) n (total r))
    \<and> (\<exists>n. most_frequent (col df ''Day_of_Week'') (peak_day r) n \<and> peak_day_count r = Some n
            \<and> peak_day_pct r = Some (pct_of n (total r))
            \<and> near_percentage (pct_of n (total r)) n (total r))
    \<and> (\<exists>n. least_frequent (col df ''Day_of_Week'') (safest_day r) n \<and> safest_day_count r = Some n
            \<and> safest_day_pct r = Some (pct_of n (total r))
            \<and> near_percentage (pct_of n (total r)) n (total r))
    \<and> (\<exists>n. most_frequent (col df ''Time_Period'') (peak_period r) n \<and> peak_period_count r = Some n
            \<and> peak_period_pct r = Some (pct_of n (total r))
            \<and> near_percentage (pct_of n (total r)) n (total r))
    \<and> weekday_pct r = Some (pct_of (weekday_accidents r) (total r))
    \<and> near_percentage (pct_of (weekday_accidents r) (total r)) (weekday_accidents r) (total r)
    \<and> weekend_pct r = Some (pct_of (weekend_accidents r) (total r))
    \<and> near_percentage (pct_of (weekend_accidents r) (total r)) (weekend_accidents r) (total r)
    \<and> total r = len df \<and> 0 < total r"
proof -
  note s = summary_Inr[OF assms(2)]
  have t: "total r = len df" by (rule s(8))
  have 1: "\<exists>n. most_frequent (col df ''Hour'') (peak_hour r) n \<and> peak_hour_count r = Some n
            \<and> peak_hour_pct r = Some (pct_of n (total r))
            \<and> near_percentage (pct_of n (total r)) n (total r)"
    using most_frequent_hours[OF s(1)] by (auto simp: s(9,14) t percent_Some pct_of_near)
  have 2: "\<exists>n. least_frequent (col df ''Hour'') (lowest_hour r) n \<and> lowest_hour_count r = Some n
            \<and> lowest_hour_pct r = Some (pct_of n (total r))
            \<and> near_percentage (pct_of n (total r)) n (total r)"
    using least_frequent_hours[OF s(2)] by (auto simp: s(10,15) t percent_Some pct_of_near)
  have 3: "\<exists>n. most_frequent (col df ''Day_of_Week'') (peak_day r) n \<and> peak_day_count r = Some n
            \<and> peak_day_pct r = Some (pct_of n (total r))
            \<and> near_percentage (pct_of n (total r)) n (total r)"
    using most_frequent_reindex[OF s(3)[unfolded day_counts_def] distinct_day_order
            day_values[OF assms(1)]]
    by (auto simp: s(11,16) t percent_Some day_counts_def pct_of_near)
  have 4: "\<exists>n. least_frequent (col df ''Day_of_Week'') (safest_day r) n \<and> safest_day_count r = Some n
            \<and> safest_day_pct r = Some (pct_of n (total r))
            \<and> near_percentage (pct_of n (total r)) n (total r)"
    using least_frequent_reindex[OF s(4)[unfolded day_counts_def] distinct_day_order
            day_values[OF assms(1)]]
    by (auto simp: s(12,17) t percent_Some day_counts_def pct_of_near)
  have 5: "\<exists>n. most_frequent (col df ''Time_Period'') (peak_period r) n \<and> peak_period_count r = Some n
            \<and> peak_period_pct r = Some (pct_of n (total r))
            \<and> near_percentage (pct_of n (total r)) n (total r)"
    using most_frequent_reindex[OF s(5)[unfolded period_counts_def] distinct_period_order
            period_values[OF assms(1)]]
    by (auto simp: s(13,18) t percent_Some period_counts_def pct_of_near)
  have 6: "weekday_pct r = Some (pct_of (weekday_accidents r) (total r))"
    "weekend_pct r = Some (pct_of (weekend_accidents r) (total r))"
    by (simp_all add: s(19,20,21,22) t percent_Some)
  have 7: "0 < total r"
    unfolding t using idxmax_nonempty[OF s(1)] by (rule hour_counts_nonempty)
  from 1 2 3 4 5 6 7 t pct_of_near show ?thesis by blast
qed

lemma summary_ex_days:
  "case summary (enriched ex_days) of
     Inr r \<Rightarrow> peak_hour r = CInt 8 \<and> peak_hour_count r = Some 2 \<and> lowest_hour r = CInt 17
       \<and> peak_day r = CStr ''Monday'' \<and> safest_day r = CStr ''Tuesday''
       \<and> safest_day_count r = Some 1 \<and> peak_period r = CStr ''Morning'' \<and> total r = 3
   | Inl e \<Rightarrow> False"
  by code_simp

theorem summary_statistics_witness:
  "\<exists>r. summary (enriched ex_days) = Inr r
     \<and> peak_hour r = CInt 8 \<and> most_frequent (col (enriched ex_days) ''Hour'') (CInt 8) 2
     \<and> peak_hour_pct r = Some (pct_of 2 3) \<and> near_percentage (pct_of 2 3) 2 3
     \<and> safest_day r = CStr ''Tuesday''
     \<and> least_frequent (col (enriched ex_days) ''Day_of_Week'') (CStr ''Tuesday'') 1"
proof -
  obtain r where r: "summary (enriched ex_days) = Inr r" and v: "peak_hour r = CInt 8"
    "peak_hour_count r = Some 2" "safest_day r = CStr ''Tuesday''" "safest_day_count r = Some 1"
    "total r = 3"
    using summary_ex_days by (cases "summary (enriched ex_days)") auto
  note t = summary_statistics[OF ex_days_enriched r]
  from t have "\<exists>n. most_frequent (col (enriched ex_days) ''Hour'') (peak_hour r) n
        \<and> peak_hour_count r = Some n \<and> peak_hour_pct r = Some (pct_of n (total r))
        \<and> near_percentage (pct_of n (total r)) n (total r)"
    by (rule conjunct1)
  then have 1: "most_frequent (col (enriched ex_days) ''Hour'') (CInt 8) 2"
    "peak_hour_pct r = Some (pct_of 2 3)" "near_percentage (pct_of 2 3) 2 3"
    using v by auto
  from t have "\<exists>n. least_frequent (col (enriched ex_days) ''Day_of_Week'') (safest_day r) n
        \<and> safest_day_count r = Some n \<and> safest_day_pct r = Some (pct_of n (total r))
        \<and> near_percentage (pct_of n (total r)) n (total r)"
    by (elim conjE)
  then have 2: "least_frequent (col (enriched ex_days) ''Day_of_Week'') (CStr ''Tuesday'') 1"
    using v by auto
  from r v 1 2 show ?thesis by blast
qed

text \<open>
  The claim as stated fails on a table with two Monday rows and one Tuesday row: the report
  names Tuesday, with its one row, as the safest day, although no row falls on a Wednesday.
  The daily count of Wednesday is NaN, which the search for the minimum skips. The
  percentage reported for Tuesday is the double 33.33333333333333, below the exact 100 / 3.
\<close>

theorem safest_day_counterexample:
  "(case summary (enriched ex_days) of
      Inr r \<Rightarrow> safest_day r = CStr ''Tuesday'' \<and> safest_day_count r = Some 1
        \<and> safest_day_pct r = Some (2345624805922133 / 70368744177664)
    | Inl e \<Rightarrow> False)
   \<and> occurrences (col (enriched ex_days) ''Day_of_Week'') (CStr ''Tuesday'') = 1
   \<and> CStr ''Wednesday'' \<in> set day_order
   \<and> occurrences (col (enriched ex_days) ''Day_of_Week'') (CStr ''Wednesday'') = 0
   \<and> map_of (day_counts (enriched ex_days)) (CStr ''Wednesday'') = Some None
   \<and> exact_percentage 1 3 = 100 / 3"
proof -
  have 1: "case summary (enriched ex_days) of
      Inr r \<Rightarrow> safest_day r = CStr ''Tuesday'' \<and> safest_day_count r = Some 1
        \<and> safest_day_pct r = Some (2345624805922133 / 70368744177664)
    | Inl e \<Rightarrow> False"
    by code_simp
  have 2: "map_of (day_counts (enriched ex_days)) (CStr ''Wednesday'') = Some None"
    unfolding day_counts_def
    by (subst map_of_reindexed) (simp_all add: day_order_def days_ex_days)
  from 1 2 show ?thesis
    by (simp add: days_ex_days occurrences_def day_order_def exact_percentage_def)
qed

end
